theory Spec2Isabelle
  imports Main "HOL-Library.Char_ord" "HOL-Library.List_Lexorder"
begin

section \<open>Strings and the two regular expressions of the program\<close>

text \<open>
  Go strings are byte sequences; they are modelled as \<open>string\<close> (a list of 8-bit
  characters). The line feed is the only character the regular-expression dot refuses.
\<close>

definition LF :: char where
  "LF = CHR 0x0A"

definition toLowerChar :: "char \<Rightarrow> char" where
  \<comment> \<open>\<open>strings.ToLower\<close> on one ASCII byte: \<open>A..Z\<close> moves to \<open>a..z\<close>.\<close>
  "toLowerChar c =
     (if 65 \<le> (of_char c :: nat) \<and> (of_char c :: nat) \<le> 90
      then char_of ((of_char c :: nat) + 32) else c)"

definition toLower :: "string \<Rightarrow> string" where
  "toLower s = map toLowerChar s"

function replaceAll :: "string \<Rightarrow> string \<Rightarrow> string \<Rightarrow> string" where
  \<comment> \<open>\<open>strings.Replace(s, old, new, -1)\<close> for a non-empty \<open>old\<close>: every
      non-overlapping occurrence, left to right.\<close>
  "replaceAll old new [] = []"
| "replaceAll old new (c # cs) =
     (if old \<noteq> [] \<and> take (length old) (c # cs) = old
      then new @ replaceAll old new (drop (length old) (c # cs))
      else c # replaceAll old new cs)"
  by pat_completeness auto
termination
  by (relation "measure (\<lambda>(old, new, s). length s)") auto

text \<open>
  Both patterns of the program are sequences of the five items below. The matcher lists
  every way the sequence matches a prefix of the input, in the order in which Go's
  leftmost-first (backtracking) semantics prefers them; each result is the input left
  over and the text of the capture group.
\<close>

datatype rx =
    Lit char                \<comment> \<open>one literal character\<close>
  | OptLit char             \<comment> \<open>\<open>c?\<close>, greedy\<close>
  | AnyPlus                 \<comment> \<open>\<open>.+\<close>, greedy; the dot is any character but the line feed\<close>
  | GroupCI "string list"   \<comment> \<open>\<open>(?i)(a|b|c)\<close>: capturing, alternatives in order\<close>
  | EndText                 \<comment> \<open>\<open>$\<close> without the multi-line flag: end of the text\<close>

fun plusRests :: "string \<Rightarrow> string list" where
  \<comment> \<open>the inputs left after \<open>.+\<close> took one or more characters, longest take first\<close>
  "plusRests [] = []"
| "plusRests (c # cs) = (if c = LF then [] else plusRests cs @ [cs])"

definition ciPrefix :: "string \<Rightarrow> string \<Rightarrow> bool" where
  \<comment> \<open>the lower-case word \<open>a\<close> starts \<open>s\<close>, letter case ignored\<close>
  "ciPrefix a s = (toLower (take (length a) s) = a)"

fun rxm :: "rx list \<Rightarrow> string \<Rightarrow> string \<Rightarrow> (string \<times> string) list" where
  "rxm [] s cap = [(s, cap)]"
| "rxm (Lit c # r) s cap =
     (case s of [] \<Rightarrow> [] | x # xs \<Rightarrow> if x = c then rxm r xs cap else [])"
| "rxm (OptLit c # r) s cap =
     (case s of [] \<Rightarrow> [] | x # xs \<Rightarrow> if x = c then rxm r xs cap else []) @ rxm r s cap"
| "rxm (AnyPlus # r) s cap = concat (map (\<lambda>rest. rxm r rest cap) (plusRests s))"
| "rxm (GroupCI alts # r) s cap =
     concat (map (\<lambda>a. if ciPrefix a s
                       then rxm r (drop (length a) s) (take (length a) s) else []) alts)"
| "rxm (EndText # r) s cap = (if s = [] then rxm r s cap else [])"

fun findFirst :: "rx list \<Rightarrow> string \<Rightarrow> (string \<times> string) option" where
  \<comment> \<open>the leftmost match and its capture group: \<open>FindStringSubmatch\<close>\<close>
  "findFirst p s =
     (case rxm p s [] of
        (rest, cap) # _ \<Rightarrow> Some (take (length s - length rest) s, cap)
      | [] \<Rightarrow> (case s of [] \<Rightarrow> None | _ # t \<Rightarrow> findFirst p t))"

definition imgAlts :: "string list" where
  "imgAlts = [''jpg'', ''jpeg'', ''png'']"

definition urlPattern :: "rx list" where
  \<comment> \<open>\<open>https?\:\/\/.+\.(?i)(jpg|jpeg|png)\<close>\<close>
  "urlPattern = [Lit CHR ''h'', Lit CHR ''t'', Lit CHR ''t'', Lit CHR ''p'', OptLit CHR ''s'',
                 Lit CHR '':'', Lit CHR ''/'', Lit CHR ''/'', AnyPlus, Lit CHR ''.'',
                 GroupCI imgAlts]"

definition extPattern :: "rx list" where
  \<comment> \<open>\<open>.+\.(?i)(jpg|jpeg|png)$\<close>\<close>
  "extPattern = [AnyPlus, Lit CHR ''.'', GroupCI imgAlts, EndText]"

definition getExtension :: "string \<Rightarrow> string" where
  "getExtension contentType =
     (if contentType = ''image/jpeg'' then ''jpg''
      else if contentType = ''image/png'' then ''png''
      else '''')"

definition getImgURL :: "string \<Rightarrow> string" where
  "getImgURL response =
     (case findFirst urlPattern (replaceAll [CHR 0x5C, CHR ''/''] ''/'' response) of
        None \<Rightarrow> ''''
      | Some (m, cap) \<Rightarrow> m)"

definition getImgExtension :: "string \<Rightarrow> string" where
  "getImgExtension filename =
     (case findFirst extPattern filename of
        None \<Rightarrow> ''''
      | Some (m, cap) \<Rightarrow> toLower cap)"


section \<open>Configuration, file system and environment\<close>

text \<open>
  The model follows the latest variant of the program (the one with \<open>newConfig\<close>,
  \<open>LogFileName\<close> and the content check in \<open>isImage\<close>); the loop of the two earlier
  variants is modelled separately below. \<open>Mode\<close> is a Go string type with two named
  constants.
\<close>

definition Local :: string where
  "Local = ''local''"

definition Remote :: string where
  "Remote = ''remote''"

record Config =
  ListenPort :: int
  LogFileName :: string
  Mode :: string
  CacheFolder :: string
  CacheTmpFolder :: string
  UpdateInterval :: int
  MaxCacheSize :: int
  ImageQuality :: int
  Remotes :: "string list"

text \<open>
  The cache folder is a directory of named nodes: regular files with their bytes, and
  sub-directories (the temporary folder is one) with their files. \<open>CacheFolder\<close> and
  \<open>CacheTmpFolder\<close> are taken to be plain names, so that the paths the program builds
  (\<open>CacheFolder/name\<close>, \<open>CacheFolder/CacheTmpFolder/name\<close>) denote an entry of the
  cache folder and an entry of its temporary sub-folder. The path separator is the
  slash.
\<close>

datatype node = File string | Dir "(string \<times> string) list"

type_synonym folder = "(string \<times> node) list"

definition PathSeparator :: char where
  "PathSeparator = CHR ''/''"

fun put :: "'k \<Rightarrow> 'v \<Rightarrow> ('k \<times> 'v) list \<Rightarrow> ('k \<times> 'v) list" where
  \<comment> \<open>create the entry, or replace the one with this name\<close>
  "put k v [] = [(k, v)]"
| "put k v ((k', v') # r) = (if k = k' then (k, v) # r else (k', v') # put k v r)"

definition del :: "'k \<Rightarrow> ('k \<times> 'v) list \<Rightarrow> ('k \<times> 'v) list" where
  "del k d = filter (\<lambda>e. fst e \<noteq> k) d"

definition isDir :: "node \<Rightarrow> bool" where
  "isDir n = (case n of File b \<Rightarrow> False | Dir fs \<Rightarrow> True)"

definition ReadDir :: "folder \<Rightarrow> (string \<times> bool) list" where
  \<comment> \<open>\<open>ioutil.ReadDir\<close>: the entries sorted by file name, each with its \<open>IsDir\<close> bit\<close>
  "ReadDir d = map (\<lambda>e. (fst e, isDir (snd e))) (sort_key fst d)"

record upstream =
  statusCode :: int
  contentType :: string
  bodyRead :: "string option"   \<comment> \<open>\<open>None\<close>: reading the body fails\<close>

datatype logline = Info string | Error string

text \<open>
  Everything the program takes from outside within one request: random numbers, clock
  readings, the answers of the network, the image codec, and which system calls fail.
\<close>

record env =
  rnd :: "nat \<Rightarrow> nat"                      \<comment> \<open>the k-th number drawn; \<open>rand.Intn n\<close> reduces it below \<open>n\<close>\<close>
  rndRemote :: nat                          \<comment> \<open>the number drawn when a remote is chosen\<close>
  nowUnix :: int                            \<comment> \<open>\<open>time.Now().Unix()\<close> at the freshness decision\<close>
  fetchUnix :: int                          \<comment> \<open>\<open>time.Now().Unix()\<close> when a retrieval starts\<close>
  nanoTmp :: int                            \<comment> \<open>\<open>UnixNano\<close> for the temporary file name\<close>
  nanoOut :: int                            \<comment> \<open>\<open>UnixNano\<close> for the cache file name\<close>
  httpGet :: "string \<Rightarrow> upstream option"     \<comment> \<open>answer to the request sent to a remote\<close>
  httpDownload :: "string \<Rightarrow> upstream option" \<comment> \<open>answer to the request sent by \<open>downloadFile\<close>\<close>
  jpegEncode :: "int \<Rightarrow> string \<Rightarrow> string option" \<comment> \<open>decode and re-encode at a quality; \<open>None\<close>: error\<close>
  openFails :: "string \<Rightarrow> bool"              \<comment> \<open>\<open>os.Open\<close> of a cache entry in \<open>isImage\<close>\<close>
  removeFails :: "string \<Rightarrow> bool"            \<comment> \<open>\<open>os.Remove\<close> of a cache entry in the pick loop\<close>
  readDirFails :: bool                      \<comment> \<open>\<open>ReadDir\<close> in \<open>handleRequest\<close>\<close>
  mkdirCacheFails :: bool
  mkdirTmpFails :: bool
  createFails :: bool                       \<comment> \<open>\<open>os.Create\<close> of the temporary file\<close>
  readTmpFails :: bool                      \<comment> \<open>\<open>ReadFile\<close> of the temporary file\<close>
  writeFails :: bool                        \<comment> \<open>\<open>WriteFile\<close> of the cache file\<close>
  removeTmpFails :: bool                    \<comment> \<open>\<open>os.Remove\<close> of the temporary file\<close>
  readDirLimitFails :: bool                 \<comment> \<open>\<open>ReadDir\<close> in the size check\<close>
  writeConfigFails :: bool

text \<open>
  The configuration file: absent, unreadable (it cannot be examined or read, or it is not
  valid JSON), or parsed into the fields of \<open>Config\<close>, with a flag saying that its list of
  remotes is absent or null (a nil slice in Go).
\<close>

datatype configfile = Missing | Unreadable | Parsed Config bool

text \<open>
  The process-wide variables \<open>config\<close> and \<open>timestamp\<close>, the disk (the cache folder, or
  \<open>None\<close> while it does not exist, and the configuration file), the log, and the URLs
  requested so far.
\<close>

record state =
  config :: Config
  timestamp :: int
  cache :: "folder option"
  configFile :: configfile
  logged :: "logline list"
  httpCalls :: "string list"

definition logln :: "logline \<Rightarrow> state \<Rightarrow> state" where
  "logln l st = st\<lparr>logged := logged st @ [l]\<rparr>"

function decimal :: "nat \<Rightarrow> string" where
  "decimal n = (if n < 10 then [char_of (48 + n)]
                else decimal (n div 10) @ [char_of (48 + n mod 10)])"
  by pat_completeness auto
termination
  by (relation "measure id") auto

definition FormatInt :: "int \<Rightarrow> string" where
  \<comment> \<open>\<open>strconv.FormatInt(i, 10)\<close>\<close>
  "FormatInt i = (if i < 0 then CHR ''-'' # decimal (nat (- i)) else decimal (nat i))"


section \<open>The cache store\<close>

definition lookupCache :: "state \<Rightarrow> string \<Rightarrow> node option" where
  "lookupCache st name = (case cache st of None \<Rightarrow> None | Some d \<Rightarrow> map_of d name)"

definition tmpFiles :: "state \<Rightarrow> (string \<times> string) list option" where
  \<comment> \<open>the files of the temporary folder, when that folder is there and is a directory\<close>
  "tmpFiles st =
     (case lookupCache st (CacheTmpFolder (config st)) of
        Some (Dir fs) \<Rightarrow> Some fs
      | _ \<Rightarrow> None)"

definition setTmp :: "(string \<times> string) list \<Rightarrow> state \<Rightarrow> state" where
  "setTmp fs st =
     st\<lparr>cache := map_option (put (CacheTmpFolder (config st)) (Dir fs)) (cache st)\<rparr>"

definition isImage :: "env \<Rightarrow> state \<Rightarrow> string \<Rightarrow> bool \<times> state" where
  \<comment> \<open>the extension is supported, the file opens, and a first read of up to 512 bytes
      succeeds (it fails on an empty file and on a directory)\<close>
  "isImage e st filename =
     (if getImgExtension filename = [] then (False, st)
      else (case lookupCache st filename of
              None \<Rightarrow> (False, logln (Error ''open'') st)
            | Some n \<Rightarrow>
                if openFails e filename then (False, logln (Error ''open'') st)
                else (case n of Dir fs \<Rightarrow> (False, st) | File b \<Rightarrow> (b \<noteq> [], st))))"

definition osRemove :: "env \<Rightarrow> state \<Rightarrow> string \<Rightarrow> state" where
  \<comment> \<open>\<open>os.Remove\<close> of a cache entry; a failure is logged and nothing else\<close>
  "osRemove e st name =
     (case cache st of
        None \<Rightarrow> logln (Error ''remove'') st
      | Some d \<Rightarrow>
          if removeFails e name \<or> map_of d name = None then logln (Error ''remove'') st
          else st\<lparr>cache := Some (del name d)\<rparr>)"

function pickLoop ::
  "env \<Rightarrow> state \<Rightarrow> (string \<times> bool) list \<Rightarrow> nat \<Rightarrow> nat \<Rightarrow> state \<times> (string \<times> bool) list \<times> nat"
where
  \<comment> \<open>the loop of \<open>handleRequest\<close> that drops the entry at \<open>fileIndex\<close> while it is not an
      image: a directory leaves the listing only, a file is also removed from the disk;
      \<open>k\<close> counts the random numbers drawn\<close>
  "pickLoop e st files fileIndex k =
     (if fileIndex < length files \<and> \<not> fst (isImage e st (fst (files ! fileIndex))) then
        (let st1 = snd (isImage e st (fst (files ! fileIndex)));
             st2 = (if snd (files ! fileIndex) then st1
                    else osRemove e st1 (fst (files ! fileIndex)));
             files' = take fileIndex files @ drop (Suc fileIndex) files
         in if length files' = 0 then (st2, files', fileIndex)
            else pickLoop e st2 files' (rnd e k mod length files') (Suc k))
      else (st, files, fileIndex))"
  by pat_completeness auto
termination
  by (relation "measure (\<lambda>(e, st, files, fileIndex, k). length files)") auto

definition localServe :: "env \<Rightarrow> state \<Rightarrow> string \<Rightarrow> state \<times> bool \<times> string" where
  \<comment> \<open>the first half of the \<open>/\<close> branch: the state, \<open>served\<close>, and what was written\<close>
  "localServe e st hostname =
     (case (if readDirFails e then None else map_option ReadDir (cache st)) of
        None \<Rightarrow> (logln (Error ''read dir'') st, False, [])
      | Some files \<Rightarrow>
          if length files = 0
          then (logln (Error ''No image found in cache folder'') st, False, [])
          else (case pickLoop e st files (rnd e 0 mod length files) 1 of
                  (st1, files1, fileIndex) \<Rightarrow>
                    if length files1 = 0
                    then (logln (Error ''No image found in cache folder'') st1, False, [])
                    else (case isImage e st1 (fst (files1 ! fileIndex)) of
                            (False, st2) \<Rightarrow>
                              (logln (Error ''No image found in cache folder'') st2, False, [])
                          | (True, st2) \<Rightarrow>
                              (logln (Info ''Serving local image'') st2, True,
                               ''http://'' @ hostname @ ''/'' @ CacheFolder (config st2)
                                 @ ''/'' @ fst (files1 ! fileIndex)))))"

section \<open>The remote fetcher\<close>

datatype rr =
    Done       \<comment> \<open>the link was written to the response\<close>
  | Aborted    \<comment> \<open>an error was logged and the function returned\<close>
  | Exit       \<comment> \<open>\<open>log.Fatalln\<close>: the process exits\<close>
  | Panic      \<comment> \<open>\<open>rand.Intn(0)\<close> on an empty list of remotes\<close>

definition httpRequest :: "(string \<Rightarrow> upstream option) \<Rightarrow> string \<Rightarrow> upstream option" where
  \<comment> \<open>\<open>http.Get\<close>: the empty URL has no protocol scheme and is refused before anything
      is sent; every other answer is the environment's\<close>
  "httpRequest f url = (if url = [] then None else f url)"

definition compressImage :: "env \<Rightarrow> int \<Rightarrow> string \<Rightarrow> string \<times> bool" where
  \<comment> \<open>the bytes to store and whether an error is returned: the input itself on an error
      and when the re-encoded image is longer\<close>
  "compressImage e quality d =
     (case jpegEncode e quality d of
        None \<Rightarrow> (d, True)
      | Some buf \<Rightarrow> if length buf > length d then (d, False) else (buf, False))"

definition writeConfig :: "env \<Rightarrow> Config \<Rightarrow> state \<Rightarrow> state" where
  \<comment> \<open>the list of remotes of a running process is never nil, so the file gets a list\<close>
  "writeConfig e c st =
     (if writeConfigFails e then logln (Error ''write config'') st
      else st\<lparr>configFile := Parsed c False\<rparr>)"

definition ensureFolders :: "env \<Rightarrow> state \<Rightarrow> state option" where
  \<comment> \<open>the two \<open>os.Stat\<close>/\<open>os.Mkdir\<close> blocks; \<open>None\<close> is \<open>log.Fatalln\<close>\<close>
  "ensureFolders e st =
     (case (case cache st of
              None \<Rightarrow> if mkdirCacheFails e then None
                       else Some ((logln (Info ''Creating cache folder'') st)\<lparr>cache := Some []\<rparr>)
            | Some d \<Rightarrow> Some st) of
        None \<Rightarrow> None
      | Some st1 \<Rightarrow>
          (case lookupCache st1 (CacheTmpFolder (config st1)) of
             None \<Rightarrow> if mkdirTmpFails e then None
                      else Some ((logln (Info ''Creating tmp folder'') st1)
                             \<lparr>cache := map_option (put (CacheTmpFolder (config st1)) (Dir []))
                                         (cache st1)\<rparr>)
           | Some n \<Rightarrow> Some st1))"

definition downloadFile :: "env \<Rightarrow> state \<Rightarrow> string \<Rightarrow> string \<Rightarrow> state \<times> bool" where
  \<comment> \<open>\<open>os.Create\<close> of the temporary file, the request, the copy; the flag is \<open>err == nil\<close>\<close>
  "downloadFile e st tmpName url =
     (case tmpFiles st of
        None \<Rightarrow> (st, False)
      | Some fs \<Rightarrow>
          if createFails e then (st, False)
          else (let st1 = (setTmp (put tmpName [] fs) st)\<lparr>httpCalls := httpCalls st @ [url]\<rparr>
                in case httpRequest (httpDownload e) url of
                     None \<Rightarrow> (st1, False)
                   | Some resp \<Rightarrow>
                       (case bodyRead resp of
                          None \<Rightarrow> (st1, False)
                        | Some b \<Rightarrow> (setTmp (put tmpName b fs) st1, True))))"

definition serveLink :: "state \<Rightarrow> string \<Rightarrow> string \<Rightarrow> state \<times> string \<times> rr" where
  "serveLink st hostname outName =
     (logln (Info ''--- Finished Remote Retrieval ---'') st,
      ''http://'' @ hostname @ ''/'' @
        replaceAll [CHR 0x5C] ''/'' (CacheFolder (config st) @ [PathSeparator] @ outName),
      Done)"

definition checkLimit :: "env \<Rightarrow> state \<Rightarrow> string \<Rightarrow> string \<Rightarrow> state \<times> string \<times> rr" where
  \<comment> \<open>the \<open>MaxCacheSize\<close> block and the link\<close>
  "checkLimit e st hostname outName =
     (if MaxCacheSize (config st) \<noteq> 0 then
        (case (if readDirLimitFails e then None else map_option ReadDir (cache st)) of
           None \<Rightarrow> (logln (Error ''read dir'') st, [], Aborted)
         | Some files \<Rightarrow>
             if int (length files) \<ge> MaxCacheSize (config st)
             then serveLink
                    (logln (Info ''Limit of MaxCacheSize reached, switching mode to local'')
                       (writeConfig e ((config st)\<lparr>Mode := Local\<rparr>)
                          (st\<lparr>config := (config st)\<lparr>Mode := Local\<rparr>\<rparr>)))
                    hostname outName
             else serveLink st hostname outName)
      else serveLink st hostname outName)"

definition storeImage :: "env \<Rightarrow> state \<Rightarrow> string \<Rightarrow> string \<Rightarrow> state \<times> string \<times> rr" where
  \<comment> \<open>read the temporary file, compress, write the cache file, remove the temporary file\<close>
  "storeImage e st hostname tmpName =
     (let outName = FormatInt (nanoOut e) @ ''.jpg'';
          st1 = logln (Info ''Compressing image'') st
      in case (if readTmpFails e then None
               else (case tmpFiles st1 of None \<Rightarrow> None | Some fs \<Rightarrow> map_of fs tmpName)) of
           None \<Rightarrow> (logln (Error ''read file'') st1, [], Aborted)
         | Some d \<Rightarrow>
             (case (if writeFails e then None
                    else (case cache st1 of
                            None \<Rightarrow> None
                          | Some dir \<Rightarrow>
                              (case map_of dir outName of
                                 Some (Dir fs) \<Rightarrow> None
                               | _ \<Rightarrow> Some (st1\<lparr>cache := Some (put outName
                                          (File (fst (compressImage e (ImageQuality (config st1)) d)))
                                          dir)\<rparr>)))) of
                None \<Rightarrow> (logln (Error ''write file'') st1, [], Aborted)
              | Some st2 \<Rightarrow>
                  (case (if removeTmpFails e then None else tmpFiles st2) of
                     None \<Rightarrow> (logln (Error ''remove'') st2, [], Aborted)
                   | Some fs \<Rightarrow>
                       checkLimit e
                         (logln (Info ''Removed uncompressed image'') (setTmp (del tmpName fs) st2))
                         hostname outName)))"

definition fetchImage ::
  "env \<Rightarrow> state \<Rightarrow> string \<Rightarrow> string \<Rightarrow> string \<Rightarrow> state \<times> string \<times> rr" where
  \<comment> \<open>from the temporary file name on\<close>
  "fetchImage e st hostname imgURL extension =
     (let st1 = logln (Info ''Retrieving from URL'') st;
          tmpName = FormatInt (nanoTmp e) @ ''.'' @ extension
      in case ensureFolders e st1 of
           None \<Rightarrow> (logln (Error ''mkdir'') st1, [], Exit)
         | Some st2 \<Rightarrow>
             (case downloadFile e (logln (Info ''Downloading image'') st2) tmpName imgURL of
                (st3, False) \<Rightarrow> (logln (Error ''download'') st3, [], Aborted)
              | (st3, True) \<Rightarrow> storeImage e st3 hostname tmpName))"

definition retrieveRemote :: "env \<Rightarrow> state \<Rightarrow> string \<Rightarrow> state \<times> string \<times> rr" where
  "retrieveRemote e st hostname =
     (let st0 = (logln (Info ''--- Starting Remote Retrieval ---'') st)\<lparr>timestamp := fetchUnix e\<rparr>
      in if Remotes (config st0) = [] then (st0, [], Panic)
         else
           (let remote = Remotes (config st0) ! (rndRemote e mod length (Remotes (config st0)));
                st1 = (logln (Info ''Retrieving remote'') st0)
                        \<lparr>httpCalls := httpCalls st0 @ [remote]\<rparr>
            in case httpRequest (httpGet e) remote of
                 None \<Rightarrow> (logln (Error ''get'') st1, [], Aborted)
               | Some response \<Rightarrow>
                   if statusCode response \<noteq> 200 \<and> statusCode response \<noteq> 302
                      \<and> statusCode response \<noteq> 301
                   then (logln (Error ''Invalid response status code'') st1, [], Aborted)
                   else if getExtension (contentType response) \<noteq> []
                   then fetchImage e st1 hostname remote (getExtension (contentType response))
                   else (case bodyRead response of
                           None \<Rightarrow> (logln (Error ''read body'') st1, [], Aborted)
                         | Some body \<Rightarrow>
                             fetchImage e st1 hostname (getImgURL body)
                               (getImgExtension (getImgURL body)))))"

section \<open>The request handler\<close>

record request =
  Method :: string
  Path :: string
  Host :: string

datatype fate = Returned | Exited | Panicked

record result =
  after :: state
  status :: nat
  body :: string
  cors :: bool          \<comment> \<open>the \<open>Access-Control-Allow-Origin\<close> header was set\<close>
  fate :: fate
  background :: bool    \<comment> \<open>a detached \<open>retrieveRemote\<close> was started; it runs later\<close>

definition fateOf :: "rr \<Rightarrow> fate" where
  "fateOf r = (case r of Done \<Rightarrow> Returned | Aborted \<Rightarrow> Returned | Exit \<Rightarrow> Exited
               | Panic \<Rightarrow> Panicked)"

definition NotFound :: "state \<Rightarrow> result" where
  "NotFound st = \<lparr>after = st, status = 404, body = ''404 page not found'' @ [LF], cors = True,
                  fate = Returned, background = False\<rparr>"

definition statCache :: "state \<Rightarrow> string \<Rightarrow> node option" where
  \<comment> \<open>\<open>os.Stat\<close> of a path below the cache folder: an entry, or a file of a sub-folder\<close>
  "statCache st rel =
     (let p = dropWhile (\<lambda>c. c = CHR ''/'') rel
      in case cache st of
           None \<Rightarrow> None
         | Some d \<Rightarrow>
             if CHR ''/'' \<in> set p
             then (case map_of d (takeWhile (\<lambda>c. c \<noteq> CHR ''/'') p) of
                     Some (Dir fs) \<Rightarrow>
                       map_option File (map_of fs (tl (dropWhile (\<lambda>c. c \<noteq> CHR ''/'') p)))
                   | _ \<Rightarrow> None)
             else map_of d p)"

definition ServeFile :: "state \<Rightarrow> node \<Rightarrow> result" where
  \<comment> \<open>\<open>http.ServeFile\<close> for a request without range or condition headers: the bytes of
      a regular file; a redirection to the name with a slash for a directory (its body is
      not modelled)\<close>
  "ServeFile st n =
     (case n of
        File b \<Rightarrow> \<lparr>after = st, status = 200, body = b, cors = True,
                   fate = Returned, background = False\<rparr>
      | Dir fs \<Rightarrow> \<lparr>after = st, status = 301, body = [], cors = True,
                   fate = Returned, background = False\<rparr>)"

definition handleRequest :: "env \<Rightarrow> state \<Rightarrow> request \<Rightarrow> result" where
  "handleRequest e st r =
     (if Method r \<noteq> ''GET''
      then \<lparr>after = st, status = 405, body = ''Method not allowed'' @ [LF], cors = False,
            fate = Returned, background = False\<rparr>
      else if Path r = ''/favicon.ico'' then NotFound st
      else if take (length (''/'' @ CacheFolder (config st) @ ''/'')) (Path r)
                = ''/'' @ CacheFolder (config st) @ ''/''
      then (if getImgExtension (Path r) = [] then NotFound st
            else (case statCache st (drop (length (CacheFolder (config st)) + 1) (Path r)) of
                    Some n \<Rightarrow> ServeFile st n
                  | None \<Rightarrow> NotFound st))
      else if Path r \<noteq> ''/'' then NotFound st
      else (case localServe e st (Host r) of
              (st1, served, b) \<Rightarrow>
                if served \<and> (Mode (config st1) = Local
                              \<or> nowUnix e - timestamp st1 < UpdateInterval (config st1))
                then \<lparr>after = st1, status = 200, body = b, cors = True,
                      fate = Returned, background = False\<rparr>
                else if served
                then \<lparr>after = st1, status = 200, body = b, cors = True,
                      fate = Returned, background = True\<rparr>
                else (case retrieveRemote e st1 (Host r) of
                        (st2, b2, res) \<Rightarrow>
                          \<lparr>after = st2, status = 200, body = b @ b2, cors = True,
                           fate = fateOf res, background = False\<rparr>)))"

section \<open>Loading the configuration\<close>

definition defaultConfig :: Config where
  "defaultConfig =
     \<lparr>ListenPort = 8080, LogFileName = [], Mode = Remote, CacheFolder = ''cache'',
      CacheTmpFolder = ''tmp'', UpdateInterval = 3, MaxCacheSize = 0, ImageQuality = 60,
      Remotes = [''https://api.nyan.xyz/httpapi/sexphoto'', ''https://loliapi.com/acg'']\<rparr>"

definition zeroConfig :: Config where
  \<comment> \<open>the zero value of the struct\<close>
  "zeroConfig =
     \<lparr>ListenPort = 0, LogFileName = [], Mode = [], CacheFolder = [],
      CacheTmpFolder = [], UpdateInterval = 0, MaxCacheSize = 0, ImageQuality = 0,
      Remotes = []\<rparr>"

definition newConfig :: "Config \<Rightarrow> bool \<Rightarrow> Config \<times> logline list" where
  \<comment> \<open>every field that is out of range is replaced by its default, with a warning;
      \<open>remotesNil\<close> says that the list of remotes is nil\<close>
  "newConfig c remotesNil =
     (\<lparr>ListenPort = (if ListenPort c \<ge> 1024 \<and> ListenPort c \<le> 65535 then ListenPort c
                     else ListenPort defaultConfig),
       LogFileName = (if LogFileName c \<noteq> [] then LogFileName c else LogFileName defaultConfig),
       Mode = (if Mode c = Local \<or> Mode c = Remote then Mode c else Mode defaultConfig),
       CacheFolder = (if CacheFolder c \<noteq> [] then CacheFolder c else CacheFolder defaultConfig),
       CacheTmpFolder = (if CacheTmpFolder c \<noteq> [] then CacheTmpFolder c
                         else CacheTmpFolder defaultConfig),
       UpdateInterval = (if UpdateInterval c > 0 then UpdateInterval c
                         else UpdateInterval defaultConfig),
       MaxCacheSize = (if MaxCacheSize c \<ge> 0 then MaxCacheSize c else MaxCacheSize defaultConfig),
       ImageQuality = (if ImageQuality c > 0 then ImageQuality c else ImageQuality defaultConfig),
       Remotes = (if remotesNil then Remotes defaultConfig else Remotes c)\<rparr>,
      (if ListenPort c \<ge> 1024 \<and> ListenPort c \<le> 65535 then []
       else [Info ''Warning: ListenPort out of range'']) @
      (if LogFileName c \<noteq> [] then [] else [Info ''Warning: LogFileName is empty'']) @
      (if Mode c = Local \<or> Mode c = Remote then [] else [Info ''Warning: Mode invalid'']) @
      (if CacheFolder c \<noteq> [] then [] else [Info ''Warning: CacheFolder invalid'']) @
      (if CacheTmpFolder c \<noteq> [] then [] else [Info ''Warning: CacheTmpFolder invalid'']) @
      (if UpdateInterval c > 0 then [] else [Info ''Warning: UpdateInterval out of range'']) @
      (if MaxCacheSize c \<ge> 0 then [] else [Info ''Warning: MaxCacheSize out of range'']) @
      (if ImageQuality c > 0 then [] else [Info ''Warning: ImageQuality out of range'']) @
      (if remotesNil then [Info ''Warning: Remotes invalid''] else []))"

definition getConfig :: "env \<Rightarrow> state \<Rightarrow> (Config \<times> state) option" where
  \<comment> \<open>read or create the configuration and write it back; \<open>None\<close> is \<open>log.Fatalln\<close>\<close>
  "getConfig e st =
     (case configFile st of
        Unreadable \<Rightarrow> None
      | Parsed c remotesNil \<Rightarrow>
          Some (fst (newConfig c remotesNil),
                writeConfig e (fst (newConfig c remotesNil))
                  (st\<lparr>logged := logged st @ [Info ''Config file found, reading...'']
                                   @ snd (newConfig c remotesNil)\<rparr>))
      | Missing \<Rightarrow>
          Some (fst (newConfig zeroConfig True),
                writeConfig e (fst (newConfig zeroConfig True))
                  (st\<lparr>logged := logged st @ [Info ''No config file found, creating one...'']
                                   @ snd (newConfig zeroConfig True)\<rparr>)))"

definition reloadConfig :: "env \<Rightarrow> state \<Rightarrow> result" where
  \<comment> \<open>the handler of \<open>/reload\<close>\<close>
  "reloadConfig e st =
     (case getConfig e st of
        None \<Rightarrow> \<lparr>after = logln (Error ''config'') st, status = 200, body = [], cors = False,
                  fate = Exited, background = False\<rparr>
      | Some (c, st1) \<Rightarrow>
          \<lparr>after = logln (Info ''Reloaded config'') (st1\<lparr>config := c\<rparr>), status = 200,
           body = ''Config reloaded'', cors = False, fate = Returned, background = False\<rparr>)"


section \<open>The pick loop of the two earlier variants\<close>

text \<open>
  In the earlier variants \<open>isImage\<close> is the extension test alone, and the loop draws again
  from the whole listing, which it never shortens. It may run forever, so it is given
  fuel: \<open>None\<close> says that the fuel ran out before the loop was left.
\<close>

definition isImageOld :: "string \<Rightarrow> bool" where
  "isImageOld filename = (getImgExtension filename \<noteq> [])"

fun pickLoopOld ::
  "nat \<Rightarrow> env \<Rightarrow> state \<Rightarrow> (string \<times> bool) list \<Rightarrow> nat \<Rightarrow> nat \<Rightarrow> (state \<times> nat) option" where
  "pickLoopOld 0 e st files i k = None"
| "pickLoopOld (Suc fuel) e st files i k =
     (if isImageOld (fst (files ! i)) then Some (st, i)
      else pickLoopOld fuel e (osRemove e st (fst (files ! i))) files
             (rnd e k mod length files) (Suc k))"

section \<open>Auxiliary notions for the proofs\<close>

text \<open>
  One round of the pick loop, taken apart: the listing without the entry at an index, and
  the state after that entry was dropped.
\<close>

definition dropAt :: "nat \<Rightarrow> 'a list \<Rightarrow> 'a list" where
  "dropAt i xs = take i xs @ drop (Suc i) xs"

definition afterDrop :: "env \<Rightarrow> state \<Rightarrow> (string \<times> bool) list \<Rightarrow> nat \<Rightarrow> state" where
  "afterDrop e st files i =
     (if snd (files ! i) then snd (isImage e st (fst (files ! i)))
      else osRemove e (snd (isImage e st (fst (files ! i)))) (fst (files ! i)))"

definition pickOk ::
  "env \<Rightarrow> (string \<times> bool) list \<Rightarrow> state \<times> (string \<times> bool) list \<times> nat \<Rightarrow> bool" where
  "pickOk e files r =
     (case r of (st1, files1, j) \<Rightarrow>
        set files1 \<subseteq> set files \<and> length files1 \<le> length files \<and>
        (files1 = [] \<or> (j < length files1 \<and> fst (isImage e st1 (fst (files1 ! j))))))"

section \<open>Example inputs\<close>

text \<open>
  A configuration, an environment in which nothing fails and every remote answers with a
  small JPEG, a state with one cached image, and the request \<open>GET /\<close>.
\<close>

definition exampleConfig :: Config where
  "exampleConfig =
     \<lparr>ListenPort = 8080, LogFileName = '''', Mode = Remote, CacheFolder = ''cache'',
      CacheTmpFolder = ''tmp'', UpdateInterval = 3, MaxCacheSize = 0, ImageQuality = 60,
      Remotes = [''https://r.example/pic'']\<rparr>"

definition imageAnswer :: upstream where
  "imageAnswer = \<lparr>statusCode = 200, contentType = ''image/jpeg'', bodyRead = Some ''JFIF''\<rparr>"

definition quietEnv :: env where
  "quietEnv =
     \<lparr>rnd = (\<lambda>k. 0), rndRemote = 0, nowUnix = 100, fetchUnix = 100, nanoTmp = 5, nanoOut = 6,
      httpGet = (\<lambda>u. Some imageAnswer), httpDownload = (\<lambda>u. Some imageAnswer),
      jpegEncode = (\<lambda>q d. Some d), openFails = (\<lambda>n. False), removeFails = (\<lambda>n. False),
      readDirFails = False, mkdirCacheFails = False, mkdirTmpFails = False,
      createFails = False, readTmpFails = False, writeFails = False, removeTmpFails = False,
      readDirLimitFails = False, writeConfigFails = False\<rparr>"

definition exampleState :: state where
  "exampleState =
     \<lparr>config = exampleConfig, timestamp = 99,
      cache = Some [(''1.jpg'', File ''abc''), (''tmp'', Dir [])],
      configFile = Parsed exampleConfig False, logged = [], httpCalls = []\<rparr>"

definition getRoot :: request where
  "getRoot = \<lparr>Method = ''GET'', Path = ''/'', Host = ''h''\<rparr>"

definition lastIsError :: "state \<Rightarrow> bool" where
  "lastIsError st = (case rev (logged st) of Error m # r \<Rightarrow> True | _ \<Rightarrow> False)"

definition entries :: "state \<Rightarrow> folder" where
  "entries st = (case cache st of None \<Rightarrow> [] | Some d \<Rightarrow> d)"

definition flipped :: "env \<Rightarrow> state \<Rightarrow> state \<Rightarrow> rr \<Rightarrow> bool" where
  \<comment> \<open>how a retrieval may change the configuration between two states\<close>
  "flipped e st st' res =
     ((config st' = config st \<or> config st' = (config st)\<lparr>Mode := Local\<rparr>) \<and>
      (config st' \<noteq> config st \<longrightarrow>
         res = Done \<and> MaxCacheSize (config st) \<noteq> 0 \<and>
         int (length (entries st')) \<ge> MaxCacheSize (config st)) \<and>
      (res = Done \<and> MaxCacheSize (config st) \<noteq> 0 \<and>
         int (length (entries st')) \<ge> MaxCacheSize (config st) \<longrightarrow>
         Mode (config st') = Local \<and>
         (\<not> writeConfigFails e \<longrightarrow> configFile st' = Parsed (config st') False)))"

definition outName :: "env \<Rightarrow> string" where
  "outName e = FormatInt (nanoOut e) @ ''.jpg''"

definition stored :: "env \<Rightarrow> state \<Rightarrow> string \<Rightarrow> folder \<Rightarrow> (string \<times> string) list \<Rightarrow> string \<Rightarrow> state" where
  \<comment> \<open>the state handed to the size check when nothing failed\<close>
  "stored e st t d fs dat =
     logln (Info ''Removed uncompressed image'')
       (setTmp (del t fs)
          ((logln (Info ''Compressing image'') st)
             \<lparr>cache := Some (put (outName e)
                 (File (fst (compressImage e (ImageQuality (config st)) dat))) d)\<rparr>))"

definition tmpName :: "env \<Rightarrow> string \<Rightarrow> string" where
  "tmpName e extension = FormatInt (nanoTmp e) @ ''.'' @ extension"

definition started :: "env \<Rightarrow> state \<Rightarrow> state" where
  \<comment> \<open>the state once a retrieval has set the time stamp\<close>
  "started e st = (logln (Info ''--- Starting Remote Retrieval ---'') st)\<lparr>timestamp := fetchUnix e\<rparr>"

definition chosen :: "env \<Rightarrow> state \<Rightarrow> string" where
  "chosen e st = Remotes (config st) ! (rndRemote e mod length (Remotes (config st)))"

definition asked :: "env \<Rightarrow> state \<Rightarrow> state" where
  \<comment> \<open>the state once the chosen remote has been requested\<close>
  "asked e st =
     (logln (Info ''Retrieving remote'') (started e st))
       \<lparr>httpCalls := httpCalls st @ [chosen e st]\<rparr>"





definition cappedState :: state where
  \<comment> \<open>a cap of one entry, and no cache folder yet\<close>
  "cappedState = exampleState\<lparr>config := exampleConfig\<lparr>MaxCacheSize := 1\<rparr>, cache := None\<rparr>"

definition emptyAnswer :: upstream where
  "emptyAnswer = \<lparr>statusCode = 200, contentType = ''image/jpeg'', bodyRead = Some []\<rparr>"

definition emptyEnv :: env where
  \<comment> \<open>as \<open>quietEnv\<close>, but every download delivers an empty body\<close>
  "emptyEnv = quietEnv\<lparr>httpDownload := (\<lambda>u. Some emptyAnswer)\<rparr>"

definition emptyCacheState :: state where
  \<comment> \<open>as \<open>exampleState\<close>, with a cache folder that exists and is empty\<close>
  "emptyCacheState = exampleState\<lparr>cache := Some []\<rparr>"


section \<open>Facts about the matcher\<close>

lemma plusRests_iff:
  "r \<in> set (plusRests s) \<longleftrightarrow> (\<exists>x. x \<noteq> [] \<and> LF \<notin> set x \<and> s = x @ r)"
proof (induction s)
  case Nil
  then show ?case by simp
next
  case (Cons c cs)
  show ?case
  proof (cases "c = LF")
    case True
    then show ?thesis by (auto simp: Cons_eq_append_conv)
  next
    case False
    show ?thesis
    proof
      assume "r \<in> set (plusRests (c # cs))"
      with False have "r \<in> set (plusRests cs) \<or> r = cs" by auto
      then show "\<exists>x. x \<noteq> [] \<and> LF \<notin> set x \<and> c # cs = x @ r"
      proof
        assume "r \<in> set (plusRests cs)"
        with Cons.IH obtain x where "x \<noteq> []" "LF \<notin> set x" "cs = x @ r" by blast
        with False have "c # x \<noteq> [] \<and> LF \<notin> set (c # x) \<and> c # cs = (c # x) @ r" by auto
        then show ?thesis by blast
      next
        assume "r = cs"
        with False have "[c] \<noteq> [] \<and> LF \<notin> set [c] \<and> c # cs = [c] @ r" by auto
        then show ?thesis by blast
      qed
    next
      assume "\<exists>x. x \<noteq> [] \<and> LF \<notin> set x \<and> c # cs = x @ r"
      then obtain x where x: "x \<noteq> []" "LF \<notin> set x" "c # cs = x @ r" by blast
      then obtain y where y: "x = c # y" "cs = y @ r" by (cases x) auto
      show "r \<in> set (plusRests (c # cs))"
      proof (cases "y = []")
        case True
        with y False show ?thesis by simp
      next
        case False
        with x y have "r \<in> set (plusRests cs)" using Cons.IH by auto
        with \<open>c \<noteq> LF\<close> show ?thesis by simp
      qed
    qed
  qed
qed

lemma length_toLower [simp]: "length (toLower s) = length s"
  by (simp add: toLower_def)

lemma group_end_iff:
  "(rest, cap) \<in> set (rxm [GroupCI alts, EndText] s c0) \<longleftrightarrow>
     rest = [] \<and> cap = s \<and> toLower s \<in> set alts"
proof
  assume "(rest, cap) \<in> set (rxm [GroupCI alts, EndText] s c0)"
  then obtain a where a: "a \<in> set alts" "ciPrefix a s" "drop (length a) s = []"
     "rest = []" "cap = take (length a) s"
    by (auto split: if_splits)
  then have "take (length a) s = s" by simp
  with a show "rest = [] \<and> cap = s \<and> toLower s \<in> set alts"
    by (simp add: ciPrefix_def)
next
  assume h: "rest = [] \<and> cap = s \<and> toLower s \<in> set alts"
  then have "ciPrefix (toLower s) s" "drop (length (toLower s)) s = []"
    "take (length (toLower s)) s = s"
    by (simp_all add: ciPrefix_def)
  with h show "(rest, cap) \<in> set (rxm [GroupCI alts, EndText] s c0)"
    by (auto intro!: bexI[of _ "toLower s"])
qed

lemma dot_group_end_iff:
  "(rest, cap) \<in> set (rxm [Lit CHR ''.'', GroupCI alts, EndText] s c0) \<longleftrightarrow>
     rest = [] \<and> s = CHR ''.'' # cap \<and> toLower cap \<in> set alts"
proof (cases s)
  case Nil
  then show ?thesis by simp
next
  case (Cons x xs)
  have "(rest, cap) \<in> set (rxm [Lit CHR ''.'', GroupCI alts, EndText] (x # xs) c0) \<longleftrightarrow>
        x = CHR ''.'' \<and> (rest, cap) \<in> set (rxm [GroupCI alts, EndText] xs c0)"
    by (simp del: rxm.simps(5,6))
  with Cons show ?thesis by (auto simp: group_end_iff simp del: rxm.simps)
qed

lemma ext_rxm_iff:
  "(rest, cap) \<in> set (rxm extPattern t []) \<longleftrightarrow>
     rest = [] \<and> toLower cap \<in> set imgAlts \<and>
     (\<exists>x. x \<noteq> [] \<and> LF \<notin> set x \<and> t = x @ CHR ''.'' # cap)"
proof -
  have "(rest, cap) \<in> set (rxm extPattern t []) \<longleftrightarrow>
        (\<exists>r \<in> set (plusRests t).
           (rest, cap) \<in> set (rxm [Lit CHR ''.'', GroupCI imgAlts, EndText] r []))"
    by (simp add: extPattern_def del: rxm.simps(2,5,6))
  then show ?thesis
    by (auto simp: dot_group_end_iff plusRests_iff simp del: rxm.simps)
qed

lemma rxm_Nil_iff: "(r, c) \<in> set (rxm [] s c0) \<longleftrightarrow> r = s \<and> c = c0"
  by auto

lemma rxm_Lit_iff:
  "(r, c) \<in> set (rxm (Lit a # p) s c0) \<longleftrightarrow> (\<exists>xs. s = a # xs \<and> (r, c) \<in> set (rxm p xs c0))"
  by (cases s) auto

lemma rxm_OptLit_iff:
  "(r, c) \<in> set (rxm (OptLit a # p) s c0) \<longleftrightarrow>
     (\<exists>xs. s = a # xs \<and> (r, c) \<in> set (rxm p xs c0)) \<or> (r, c) \<in> set (rxm p s c0)"
  by (cases s) auto

lemma rxm_AnyPlus_iff:
  "(r, c) \<in> set (rxm (AnyPlus # p) s c0) \<longleftrightarrow>
     (\<exists>x t. x \<noteq> [] \<and> LF \<notin> set x \<and> s = x @ t \<and> (r, c) \<in> set (rxm p t c0))"
proof
  assume "(r, c) \<in> set (rxm (AnyPlus # p) s c0)"
  then obtain t where t: "t \<in> set (plusRests s)" "(r, c) \<in> set (rxm p t c0)" by auto
  then obtain x where "x \<noteq> []" "LF \<notin> set x" "s = x @ t" by (auto simp: plusRests_iff)
  with t show "\<exists>x t. x \<noteq> [] \<and> LF \<notin> set x \<and> s = x @ t \<and> (r, c) \<in> set (rxm p t c0)"
    by blast
next
  assume "\<exists>x t. x \<noteq> [] \<and> LF \<notin> set x \<and> s = x @ t \<and> (r, c) \<in> set (rxm p t c0)"
  then obtain x t where x: "x \<noteq> []" "LF \<notin> set x" "s = x @ t" "(r, c) \<in> set (rxm p t c0)"
    by blast
  then have "t \<in> set (plusRests s)" by (auto simp: plusRests_iff)
  with x show "(r, c) \<in> set (rxm (AnyPlus # p) s c0)" by auto
qed

lemma rxm_GroupCI_iff:
  "(r, c) \<in> set (rxm (GroupCI alts # p) s c0) \<longleftrightarrow>
     (\<exists>a \<in> set alts. ciPrefix a s \<and> (r, c) \<in> set (rxm p (drop (length a) s) (take (length a) s)))"
  by (auto split: if_splits)

lemma rxm_EndText_iff:
  "(r, c) \<in> set (rxm (EndText # p) s c0) \<longleftrightarrow> s = [] \<and> (r, c) \<in> set (rxm p [] c0)"
  by auto

lemmas rxm_iff = rxm_Nil_iff rxm_Lit_iff rxm_OptLit_iff rxm_AnyPlus_iff rxm_GroupCI_iff
  rxm_EndText_iff


lemma rxm_suffix:
  "(rest, cap) \<in> set (rxm p s c0) \<Longrightarrow> \<exists>m. s = m @ rest"
proof (induction p arbitrary: s c0)
  case Nil
  then show ?case by simp
next
  case (Cons i p)
  show ?case
  proof (cases i)
    case (Lit a)
    with Cons.prems obtain xs where "s = a # xs" "(rest, cap) \<in> set (rxm p xs c0)"
      by (auto simp: rxm_Lit_iff simp del: rxm.simps)
    with Cons.IH[of xs c0] obtain m where "s = (a # m) @ rest" by auto
    then show ?thesis by blast
  next
    case (OptLit a)
    with Cons.prems have "(\<exists>xs. s = a # xs \<and> (rest, cap) \<in> set (rxm p xs c0)) \<or>
        (rest, cap) \<in> set (rxm p s c0)"
      by (simp add: rxm_OptLit_iff del: rxm.simps)
    then show ?thesis
    proof
      assume "\<exists>xs. s = a # xs \<and> (rest, cap) \<in> set (rxm p xs c0)"
      then obtain xs where "s = a # xs" "(rest, cap) \<in> set (rxm p xs c0)" by blast
      with Cons.IH[of xs c0] obtain m where "s = (a # m) @ rest" by auto
      then show ?thesis by blast
    next
      assume "(rest, cap) \<in> set (rxm p s c0)"
      with Cons.IH show ?thesis by blast
    qed
  next
    case AnyPlus
    with Cons.prems obtain x t where "s = x @ t" "(rest, cap) \<in> set (rxm p t c0)"
      by (auto simp: rxm_AnyPlus_iff simp del: rxm.simps)
    with Cons.IH[of t c0] obtain m where "s = (x @ m) @ rest" by auto
    then show ?thesis by blast
  next
    case (GroupCI alts)
    with Cons.prems have "\<exists>a\<in>set alts. ciPrefix a s \<and>
        (rest, cap) \<in> set (rxm p (drop (length a) s) (take (length a) s))"
      by (simp only: rxm_GroupCI_iff)
    then obtain a :: string where
      "(rest, cap) \<in> set (rxm p (drop (length a) s) (take (length a) s))"
      by blast
    with Cons.IH[of "drop (length a) s" "take (length a) s"] obtain m
      where "drop (length a) s = m @ rest" by auto
    then have "s = (take (length a) s @ m) @ rest"
      using append_take_drop_id[of "length a" s] by simp
    then show ?thesis by blast
  next
    case EndText
    with Cons.prems have "s = []" "(rest, cap) \<in> set (rxm p [] c0)"
      by (auto simp: rxm_EndText_iff simp del: rxm.simps)
    with Cons.IH[of "[]" c0] show ?thesis by auto
  qed
qed

declare findFirst.simps [simp del]

lemma findFirst_hit:
  "rxm p s [] = (rest, cap) # rcs \<Longrightarrow>
     findFirst p s = Some (take (length s - length rest) s, cap)"
  by (subst findFirst.simps) simp

lemma findFirst_miss_Nil: "rxm p [] [] = [] \<Longrightarrow> findFirst p [] = None"
  by (subst findFirst.simps) simp

lemma findFirst_miss_Cons: "rxm p (a # s) [] = [] \<Longrightarrow> findFirst p (a # s) = findFirst p s"
  by (subst findFirst.simps) simp

lemma findFirst_here:
  assumes "rxm p s [] = (rest, cap) # rcs"
  shows "\<exists>m. findFirst p s = Some (m, cap) \<and> s = m @ rest"
proof -
  have "(rest, cap) \<in> set (rxm p s [])" using assms by simp
  from rxm_suffix[OF this] obtain m where m: "s = m @ rest" by blast
  then have "take (length s - length rest) s = m" by simp
  with findFirst_hit[OF assms] m show ?thesis by simp
qed

lemma findFirst_sound:
  "findFirst p s = Some (m, cap) \<Longrightarrow>
     \<exists>pre rest. s = pre @ m @ rest \<and> (rest, cap) \<in> set (rxm p (m @ rest) [])"
proof (induction s)
  case Nil
  show ?case
  proof (cases "rxm p [] []")
    case Nil
    with findFirst_miss_Nil[of p] \<open>findFirst p [] = Some (m, cap)\<close> show ?thesis by simp
  next
    case (Cons rc rcs)
    obtain rest c where rc: "rc = (rest, c)" by (cases rc)
    with Cons findFirst_here[of p "[]" rest c rcs] Nil.prems
    have "m = []" "rest = []" "cap = c" by auto
    with Cons rc have "[] = [] @ m @ rest \<and> (rest, cap) \<in> set (rxm p (m @ rest) [])" by simp
    then show ?thesis by blast
  qed
next
  case (Cons a s)
  show ?case
  proof (cases "rxm p (a # s) []")
    case Nil
    with Cons.prems have "findFirst p s = Some (m, cap)" by (simp add: findFirst_miss_Cons)
    with Cons.IH obtain pre rest where "s = pre @ m @ rest" "(rest, cap) \<in> set (rxm p (m @ rest) [])"
      by blast
    then have "a # s = (a # pre) @ m @ rest \<and> (rest, cap) \<in> set (rxm p (m @ rest) [])" by simp
    then show ?thesis by blast
  next
    case (Cons rc rcs)
    obtain rest c where rc: "rc = (rest, c)" by (cases rc)
    with Cons findFirst_here[of p "a # s" rest c rcs] Cons.prems
    have m: "a # s = m @ rest" "cap = c" by auto
    with Cons rc have "a # s = [] @ m @ rest \<and> (rest, cap) \<in> set (rxm p (m @ rest) [])"
      by simp
    then show ?thesis by blast
  qed
qed



lemma getImgExtension_sound:
  "getImgExtension t \<noteq> [] \<Longrightarrow> getImgExtension t \<in> set imgAlts"
proof -
  assume ne: "getImgExtension t \<noteq> []"
  then obtain m cap where f: "findFirst extPattern t = Some (m, cap)"
    by (auto simp: getImgExtension_def split: option.splits)
  from findFirst_sound[OF this] obtain rest where "(rest, cap) \<in> set (rxm extPattern (m @ rest) [])"
    by blast
  then have "toLower cap \<in> set imgAlts" by (simp add: ext_rxm_iff)
  with f show ?thesis by (simp add: getImgExtension_def)
qed




section \<open>Extracted URLs carry an image extension\<close>



declare pickLoop.simps [simp del]

lemma logln_fields [simp]:
  "config (logln l st) = config st" "timestamp (logln l st) = timestamp st"
  "cache (logln l st) = cache st" "configFile (logln l st) = configFile st"
  "httpCalls (logln l st) = httpCalls st" "logged (logln l st) = logged st @ [l]"
  by (simp_all add: logln_def)

lemma lookupCache_logln [simp]: "lookupCache (logln l st) n = lookupCache st n"
  by (simp add: lookupCache_def)

lemma isImage_fields [simp]:
  "config (snd (isImage e st n)) = config st" "timestamp (snd (isImage e st n)) = timestamp st"
  "cache (snd (isImage e st n)) = cache st" "configFile (snd (isImage e st n)) = configFile st"
  "httpCalls (snd (isImage e st n)) = httpCalls st"
  by (auto simp: isImage_def split: option.splits node.splits)

lemma isImage_ext: "fst (isImage e st n) \<Longrightarrow> getImgExtension n \<noteq> []"
  by (auto simp: isImage_def split: if_splits)

lemma isImage_true_state: "fst (isImage e st n) \<Longrightarrow> snd (isImage e st n) = st"
  by (auto simp: isImage_def split: if_splits option.splits node.splits)

lemma osRemove_fields [simp]:
  "config (osRemove e st n) = config st" "timestamp (osRemove e st n) = timestamp st"
  "configFile (osRemove e st n) = configFile st" "httpCalls (osRemove e st n) = httpCalls st"
  by (auto simp: osRemove_def split: option.splits)

lemma pickLoop_unfold:
  "pickLoop e st files i k =
     (if i < length files \<and> \<not> fst (isImage e st (fst (files ! i))) then
        (if dropAt i files = [] then (afterDrop e st files i, dropAt i files, i)
         else pickLoop e (afterDrop e st files i) (dropAt i files)
                (rnd e k mod length (dropAt i files)) (Suc k))
      else (st, files, i))"
  by (subst pickLoop.simps) (simp only: Let_def dropAt_def afterDrop_def length_0_conv)

lemma pickLoop_stop:
  "\<not> (i < length files \<and> \<not> fst (isImage e st (fst (files ! i)))) \<Longrightarrow>
     pickLoop e st files i k = (st, files, i)"
  by (subst pickLoop_unfold) auto

lemma pickLoop_last:
  "i < length files \<Longrightarrow> \<not> fst (isImage e st (fst (files ! i))) \<Longrightarrow> dropAt i files = [] \<Longrightarrow>
     pickLoop e st files i k = (afterDrop e st files i, [], i)"
  by (subst pickLoop_unfold) simp

lemma pickLoop_step:
  "i < length files \<Longrightarrow> \<not> fst (isImage e st (fst (files ! i))) \<Longrightarrow> dropAt i files \<noteq> [] \<Longrightarrow>
     pickLoop e st files i k =
       pickLoop e (afterDrop e st files i) (dropAt i files)
         (rnd e k mod length (dropAt i files)) (Suc k)"
  by (subst pickLoop_unfold) simp

lemma afterDrop_fields [simp]:
  "config (afterDrop e st files i) = config st" "timestamp (afterDrop e st files i) = timestamp st"
  "configFile (afterDrop e st files i) = configFile st"
  "httpCalls (afterDrop e st files i) = httpCalls st"
  by (simp_all add: afterDrop_def)

lemma dropAt_props:
  "set (dropAt i xs) \<subseteq> set xs" "length (dropAt i xs) \<le> length xs"
  "i < length xs \<Longrightarrow> length (dropAt i xs) < length xs"
  using set_take_subset[of i xs] set_drop_subset[of "Suc i" xs]
  by (auto simp: dropAt_def)

lemma pickLoop_induct_rule [case_names stop last step]:
  assumes stop: "\<And>st files i k. \<not> (i < length files \<and> \<not> fst (isImage e st (fst (files ! i))))
                   \<Longrightarrow> P st files i k (st, files, i)"
    and last: "\<And>st files i k. i < length files \<Longrightarrow> \<not> fst (isImage e st (fst (files ! i))) \<Longrightarrow>
                   dropAt i files = [] \<Longrightarrow> P st files i k (afterDrop e st files i, [], i)"
    and step: "\<And>st files i k res. i < length files \<Longrightarrow> \<not> fst (isImage e st (fst (files ! i))) \<Longrightarrow>
                   dropAt i files \<noteq> [] \<Longrightarrow>
                   P (afterDrop e st files i) (dropAt i files)
                     (rnd e k mod length (dropAt i files)) (Suc k)
                     (pickLoop e (afterDrop e st files i) (dropAt i files)
                        (rnd e k mod length (dropAt i files)) (Suc k)) \<Longrightarrow>
                   P st files i k
                     (pickLoop e (afterDrop e st files i) (dropAt i files)
                        (rnd e k mod length (dropAt i files)) (Suc k))"
  shows "P st files i k (pickLoop e st files i k)"
proof (induction "length files" arbitrary: st files i k rule: less_induct)
  case less
  show ?case
  proof (cases "i < length files \<and> \<not> fst (isImage e st (fst (files ! i)))")
    case False
    with stop[OF False] pickLoop_stop[OF False] show ?thesis by simp
  next
    case True
    show ?thesis
    proof (cases "dropAt i files = []")
      case d: True
      with True last[of i files st k] pickLoop_last[of i files e st k] show ?thesis by simp
    next
      case d: False
      from True have "length (dropAt i files) < length files" by (simp add: dropAt_props)
      from less[OF this] have
        "P (afterDrop e st files i) (dropAt i files) (rnd e k mod length (dropAt i files)) (Suc k)
           (pickLoop e (afterDrop e st files i) (dropAt i files)
              (rnd e k mod length (dropAt i files)) (Suc k))" .
      with True d step[of i files st k] pickLoop_step[of i files e st k] show ?thesis by simp
    qed
  qed
qed

lemma pickLoop_fields:
  "config (fst (pickLoop e st files i k)) = config st \<and>
   timestamp (fst (pickLoop e st files i k)) = timestamp st \<and>
   configFile (fst (pickLoop e st files i k)) = configFile st \<and>
   httpCalls (fst (pickLoop e st files i k)) = httpCalls st"
  by (rule pickLoop_induct_rule) simp_all

lemma pickLoop_result:
  "i < length files \<longrightarrow> pickOk e files (pickLoop e st files i k)"
proof (rule pickLoop_induct_rule[where P = "\<lambda>st files i k r. i < length files \<longrightarrow> pickOk e files r"])
  fix st :: state and files :: "(string \<times> bool) list" and i :: nat
  assume "\<not> (i < length files \<and> \<not> fst (isImage e st (fst (files ! i))))"
  then show "i < length files \<longrightarrow> pickOk e files (st, files, i)"
    by (auto simp: pickOk_def)
next
  fix st :: state and files :: "(string \<times> bool) list" and i :: nat
  show "i < length files \<longrightarrow> pickOk e files (afterDrop e st files i, [], i)"
    by (simp add: pickOk_def)
next
  fix st :: state and files :: "(string \<times> bool) list" and i k :: nat
  let ?r = "pickLoop e (afterDrop e st files i) (dropAt i files)
              (rnd e k mod length (dropAt i files)) (Suc k)"
  assume d: "dropAt i files \<noteq> []"
    and ih: "rnd e k mod length (dropAt i files) < length (dropAt i files) \<longrightarrow>
               pickOk e (dropAt i files) ?r"
  from d have "rnd e k mod length (dropAt i files) < length (dropAt i files)" by simp
  with ih have "pickOk e (dropAt i files) ?r" by simp
  with dropAt_props(1,2)[of i files]
  show "i < length files \<longrightarrow> pickOk e files ?r"
    by (auto simp: pickOk_def split: prod.splits)
qed

lemma localServe_fields:
  "localServe e st h = (st1, served, b) \<Longrightarrow>
     config st1 = config st \<and> timestamp st1 = timestamp st \<and>
     configFile st1 = configFile st \<and> httpCalls st1 = httpCalls st"
proof -
  assume a: "localServe e st h = (st1, served, b)"
  show ?thesis
  proof (cases "if readDirFails e then None else map_option ReadDir (cache st)")
    case None
    with a show ?thesis by (auto simp: localServe_def)
  next
    case (Some files)
    show ?thesis
    proof (cases "length files = 0")
      case True
      with a Some show ?thesis by (auto simp: localServe_def)
    next
      case False
      obtain s1 f1 j where p: "pickLoop e st files (rnd e 0 mod length files) 1 = (s1, f1, j)"
        by (cases "pickLoop e st files (rnd e 0 mod length files) 1") auto
      from pickLoop_fields[of e st files "rnd e 0 mod length files" 1] p
      have f: "config s1 = config st \<and> timestamp s1 = timestamp st \<and>
         configFile s1 = configFile st \<and> httpCalls s1 = httpCalls st" by simp
      obtain ok s2 where i: "isImage e s1 (fst (f1 ! j)) = (ok, s2)"
        by (cases "isImage e s1 (fst (f1 ! j))") auto
      from isImage_fields[of e s1 "fst (f1 ! j)"] i
      have f2: "config s2 = config s1 \<and> timestamp s2 = timestamp s1 \<and>
         configFile s2 = configFile s1 \<and> httpCalls s2 = httpCalls s1" by simp
      from a Some False p i f f2 show ?thesis
        by (auto simp: localServe_def split: if_splits bool.splits)
    qed
  qed
qed

lemma localServe_served:
  assumes "localServe e st h = (st1, True, b)"
  shows "\<exists>d name isd. cache st = Some d \<and> (name, isd) \<in> set (ReadDir d) \<and>
           getImgExtension name \<noteq> [] \<and>
           b = ''http://'' @ h @ ''/'' @ CacheFolder (config st) @ ''/'' @ name"
proof -
  from assms obtain files where
    Some: "(if readDirFails e then None else map_option ReadDir (cache st)) = Some files"
    by (cases "if readDirFails e then None else map_option ReadDir (cache st)")
       (auto simp: localServe_def)
  then obtain d where d: "cache st = Some d" "files = ReadDir d" by (auto split: if_splits)
  from assms Some have ne: "length files \<noteq> 0" by (auto simp: localServe_def split: if_splits)
  obtain s1 f1 j where p: "pickLoop e st files (rnd e 0 mod length files) 1 = (s1, f1, j)"
    by (cases "pickLoop e st files (rnd e 0 mod length files) 1") auto
  from ne have "rnd e 0 mod length files < length files" by simp
  with pickLoop_result[of "rnd e 0 mod length files" files e st 1] p
  have ok: "pickOk e files (s1, f1, j)" by simp
  from pickLoop_fields[of e st files "rnd e 0 mod length files" 1] p
  have f: "config s1 = config st" by simp
  obtain okI s2 where i: "isImage e s1 (fst (f1 ! j)) = (okI, s2)"
    by (cases "isImage e s1 (fst (f1 ! j))") auto
  from assms Some ne p i have r: "f1 \<noteq> []" "okI"
    "b = ''http://'' @ h @ ''/'' @ CacheFolder (config s2) @ ''/'' @ fst (f1 ! j)"
    by (auto simp: localServe_def split: if_splits bool.splits)
  from isImage_fields(1)[of e s1 "fst (f1 ! j)"] i have f2: "config s2 = config s1" by simp
  from ok r have j: "j < length f1" "set f1 \<subseteq> set files" by (auto simp: pickOk_def)
  then have mem: "f1 ! j \<in> set files" by (meson nth_mem subsetD)
  from i r isImage_ext[of e s1 "fst (f1 ! j)"] have ext: "getImgExtension (fst (f1 ! j)) \<noteq> []"
    by simp
  from mem d have "(fst (f1 ! j), snd (f1 ! j)) \<in> set (ReadDir d)" by simp
  with d ext r f f2 have "cache st = Some d \<and> (fst (f1 ! j), snd (f1 ! j)) \<in> set (ReadDir d) \<and>
           getImgExtension (fst (f1 ! j)) \<noteq> [] \<and>
           b = ''http://'' @ h @ ''/'' @ CacheFolder (config st) @ ''/'' @ fst (f1 ! j)" by simp
  then show ?thesis by blast
qed

lemma root_not_cache_path:
  "take (length (''/'' @ cf @ ''/'')) ''/'' \<noteq> ''/'' @ cf @ ''/''"
proof
  assume "take (length (''/'' @ cf @ ''/'')) ''/'' = ''/'' @ cf @ ''/''"
  then have "length (take (length (''/'' @ cf @ ''/'')) ''/'') = length (''/'' @ cf @ ''/'')"
    by simp
  then show False by simp
qed

lemma handleRequest_root:
  assumes "Method r = ''GET''" "Path r = ''/''"
  shows "handleRequest e st r =
     (case localServe e st (Host r) of
        (st1, served, b) \<Rightarrow>
          if served \<and> (Mode (config st1) = Local
                        \<or> nowUnix e - timestamp st1 < UpdateInterval (config st1))
          then \<lparr>after = st1, status = 200, body = b, cors = True,
                fate = Returned, background = False\<rparr>
          else if served
          then \<lparr>after = st1, status = 200, body = b, cors = True,
                fate = Returned, background = True\<rparr>
          else (case retrieveRemote e st1 (Host r) of
                  (st2, b2, res) \<Rightarrow>
                    \<lparr>after = st2, status = 200, body = b @ b2, cors = True,
                     fate = fateOf res, background = False\<rparr>))"
  using assms root_not_cache_path[of "CacheFolder (config st)"]
  by (simp add: handleRequest_def)

section \<open>Serving from the cache while it is fresh\<close>

text \<open>
  Claim C1. For a \<open>GET /\<close> request whose local serve succeeded, if the mode is local or
  less than the update interval has passed since the last update time stamp, the handler
  returns the local image URL (an entry of the cache listing with an image extension)
  and does no remote call: nothing is requested and no background retrieval is started.
\<close>

theorem served_fresh_returns_local:
  assumes "Method r = ''GET''" and "Path r = ''/''"
    and "localServe e st (Host r) = (st1, True, b)"
    and "Mode (config st) = Local \<or> nowUnix e - timestamp st < UpdateInterval (config st)"
  shows "handleRequest e st r =
           \<lparr>after = st1, status = 200, body = b, cors = True, fate = Returned,
            background = False\<rparr>
         \<and> httpCalls (after (handleRequest e st r)) = httpCalls st
         \<and> (\<exists>d name isd. cache st = Some d \<and> (name, isd) \<in> set (ReadDir d) \<and>
               getImgExtension name \<noteq> [] \<and>
               b = ''http://'' @ Host r @ ''/'' @ CacheFolder (config st) @ ''/'' @ name)"
proof -
  from localServe_fields[OF assms(3)] have f: "config st1 = config st" "timestamp st1 = timestamp st"
    "httpCalls st1 = httpCalls st" by simp_all
  with assms have h: "handleRequest e st r =
           \<lparr>after = st1, status = 200, body = b, cors = True, fate = Returned,
            background = False\<rparr>"
    by (simp add: handleRequest_root)
  with f localServe_served[OF assms(3)] show ?thesis by simp
qed


theorem served_fresh_returns_local_witness:
  "handleRequest quietEnv exampleState getRoot =
     \<lparr>after = fst (localServe quietEnv exampleState ''h''), status = 200,
      body = ''http://h/cache/1.jpg'', cors = True, fate = Returned, background = False\<rparr>
   \<and> httpCalls (after (handleRequest quietEnv exampleState getRoot)) = httpCalls exampleState"
proof -
  have m: "Method getRoot = ''GET''" "Path getRoot = ''/''" "Host getRoot = ''h''"
    by (simp_all add: getRoot_def)
  have "snd (localServe quietEnv exampleState ''h'') = (True, ''http://h/cache/1.jpg'')"
    by code_simp
  then have l: "localServe quietEnv exampleState (Host getRoot) =
      (fst (localServe quietEnv exampleState ''h''), True, ''http://h/cache/1.jpg'')"
    using m by (cases "localServe quietEnv exampleState ''h''") simp
  have f: "Mode (config exampleState) = Local \<or>
      nowUnix quietEnv - timestamp exampleState < UpdateInterval (config exampleState)"
    by (simp add: quietEnv_def exampleState_def exampleConfig_def)
  from served_fresh_returns_local[OF m(1) m(2) l f] show ?thesis by blast
qed

lemma setTmp_fields [simp]:
  "config (setTmp fs st) = config st" "timestamp (setTmp fs st) = timestamp st"
  "configFile (setTmp fs st) = configFile st" "httpCalls (setTmp fs st) = httpCalls st"
  "logged (setTmp fs st) = logged st"
  by (simp_all add: setTmp_def)

lemma writeConfig_fields [simp]:
  "config (writeConfig e c st) = config st" "timestamp (writeConfig e c st) = timestamp st"
  "cache (writeConfig e c st) = cache st" "httpCalls (writeConfig e c st) = httpCalls st"
  by (simp_all add: writeConfig_def)

lemma lastIsError_logln [simp]:
  "lastIsError (logln (Error m) st)" "\<not> lastIsError (logln (Info m) st)"
  by (simp_all add: lastIsError_def logln_def)

lemma serveLink_facts:
  "serveLink st h n = (st', b, res) \<Longrightarrow>
     res = Done \<and> b \<noteq> [] \<and> config st' = config st \<and> timestamp st' = timestamp st \<and>
     cache st' = cache st \<and> httpCalls st' = httpCalls st \<and> configFile st' = configFile st"
  by (auto simp: serveLink_def)

lemma checkLimit_facts:
  assumes "checkLimit e st h n = (st', b, res)"
  shows "timestamp st' = timestamp st \<and> cache st' = cache st \<and> httpCalls st' = httpCalls st \<and>
         (res = Done \<or> res = Aborted) \<and>
         (res = Aborted \<longrightarrow> b = [] \<and> lastIsError st') \<and>
         (res = Done \<longrightarrow> b \<noteq> []) \<and>
         (config st' = config st \<or> config st' = (config st)\<lparr>Mode := Local\<rparr>)"
  using assms
  by (auto simp: checkLimit_def serveLink_def split: if_splits option.splits)

lemma put_length: "length (put k v d) = (if k \<in> fst ` set d then length d else Suc (length d))"
  by (induction d) force+

lemma put_map_of: "map_of (put k v d) = (map_of d)(k \<mapsto> v)"
  by (induction d) (auto simp: fun_eq_iff)

lemma put_keys: "fst ` set (put k v d) = insert k (fst ` set d)"
proof (induction d)
  case Nil
  then show ?case by simp
next
  case (Cons a d)
  obtain k' v' where a: "a = (k', v')" by (cases a)
  show ?case
  proof (cases "k = k'")
    case True
    with a show ?thesis by auto
  next
    case False
    with a have "fst ` set (put k v (a # d)) = insert k' (fst ` set (put k v d))" by simp
    with Cons.IH a show ?thesis by auto
  qed
qed

lemma del_map_of: "map_of (del k d) n = (if n = k then None else map_of d n)"
  by (induction d) (auto simp: del_def)

lemma map_of_None_keys: "map_of d k = None \<longleftrightarrow> k \<notin> fst ` set d"
  by (simp add: map_of_eq_None_iff)

lemma ReadDir_length [simp]: "length (ReadDir d) = length d"
  by (simp add: ReadDir_def)

lemma ReadDir_names [simp]: "fst ` set (ReadDir d) = fst ` set d"
  by (force simp: ReadDir_def)

lemma lookupCache_entries: "lookupCache st n = map_of (entries st) n"
  by (simp add: lookupCache_def entries_def split: option.splits)

lemma ensureFolders_facts:
  assumes "ensureFolders e st = Some st2"
  shows "cache st2 \<noteq> None \<and> config st2 = config st \<and> timestamp st2 = timestamp st \<and>
         httpCalls st2 = httpCalls st \<and> configFile st2 = configFile st \<and>
         map_of (entries st2) =
           (if map_of (entries st) (CacheTmpFolder (config st)) = None
            then (map_of (entries st))(CacheTmpFolder (config st) \<mapsto> Dir [])
            else map_of (entries st)) \<and>
         length (entries st2) =
           (if map_of (entries st) (CacheTmpFolder (config st)) = None
            then Suc (length (entries st)) else length (entries st))"
proof (cases "cache st")
  case None
  with assms show ?thesis
    by (auto simp: ensureFolders_def lookupCache_def entries_def split: if_splits)
next
  case (Some d)
  show ?thesis
  proof (cases "map_of d (CacheTmpFolder (config st))")
    case None
    with Some assms have "st2 = (logln (Info ''Creating tmp folder'') st)
        \<lparr>cache := Some (put (CacheTmpFolder (config st)) (Dir []) d)\<rparr>"
      by (auto simp: ensureFolders_def lookupCache_def split: if_splits)
    with Some None show ?thesis
      by (simp add: entries_def put_map_of put_length map_of_None_keys)
  next
    case (Some n)
    with \<open>cache st = Some d\<close> assms show ?thesis
      by (auto simp: ensureFolders_def lookupCache_def entries_def)
  qed
qed

lemma ensureFolders_None:
  "ensureFolders e st = None \<Longrightarrow>
     (cache st = None \<and> mkdirCacheFails e) \<or>
     (lookupCache st (CacheTmpFolder (config st)) = None \<and> mkdirTmpFails e)"
  by (auto simp: ensureFolders_def lookupCache_def split: option.splits if_splits)

lemma tmpFiles_Some:
  "tmpFiles st = Some fs \<longleftrightarrow>
     (\<exists>d. cache st = Some d \<and> map_of d (CacheTmpFolder (config st)) = Some (Dir fs))"
  by (auto simp: tmpFiles_def lookupCache_def split: option.splits node.splits)

lemma setTmp_cache:
  "cache st = Some d \<Longrightarrow>
     cache (setTmp fs st) = Some (put (CacheTmpFolder (config st)) (Dir fs) d)"
  by (simp add: setTmp_def)

lemma downloadFile_facts:
  assumes "downloadFile e st t url = (st3, ok)"
  shows "config st3 = config st \<and> timestamp st3 = timestamp st \<and>
         configFile st3 = configFile st \<and> logged st3 = logged st \<and>
         length (entries st3) = length (entries st) \<and>
         (\<forall>n. n \<noteq> CacheTmpFolder (config st) \<longrightarrow>
              map_of (entries st3) n = map_of (entries st) n) \<and>
         (ok \<longrightarrow> url \<noteq> [] \<and> tmpFiles st3 \<noteq> None) \<and>
         (cache st \<noteq> None \<longrightarrow> cache st3 \<noteq> None)"
proof (cases "tmpFiles st")
  case None
  with assms show ?thesis by (auto simp: downloadFile_def)
next
  case (Some fs)
  then obtain d where d: "cache st = Some d" "map_of d (CacheTmpFolder (config st)) = Some (Dir fs)"
    by (auto simp: tmpFiles_Some)
  then have k: "CacheTmpFolder (config st) \<in> fst ` set d"
    by (metis map_of_None_keys option.distinct(1))
  let ?T = "CacheTmpFolder (config st)"
  have c1: "\<And>x. cache (setTmp x st) = Some (put ?T (Dir x) d)" using d by (simp add: setTmp_cache)
  have e1: "\<And>x. entries (setTmp x st) = put ?T (Dir x) d" using c1 by (simp add: entries_def)
  have e0: "entries st = d" using d by (simp add: entries_def)
  let ?st1 = "(setTmp (put t [] fs) st)\<lparr>httpCalls := httpCalls st @ [url]\<rparr>"
  have c2: "\<And>x. cache (setTmp x ?st1) = Some (put ?T (Dir x) (put ?T (Dir (put t [] fs)) d))"
    using d by (simp add: setTmp_def)
  have e2: "\<And>x. entries (setTmp x ?st1) = put ?T (Dir x) (put ?T (Dir (put t [] fs)) d)"
    using c2 by (simp add: entries_def)
  have es1: "entries ?st1 = put ?T (Dir (put t [] fs)) d" using c1 by (simp add: entries_def)
  have t2: "\<And>x. tmpFiles (setTmp x ?st1) = Some x"
    using c2 by (simp add: tmpFiles_Some put_map_of)
  from assms Some have cases: "(st3 = st \<and> \<not> ok) \<or> (st3 = ?st1 \<and> \<not> ok) \<or>
      (\<exists>b. st3 = setTmp (put t b fs) ?st1 \<and> ok \<and> url \<noteq> [])"
    by (auto simp: downloadFile_def Let_def httpRequest_def split: if_splits option.splits)
  then show ?thesis
  proof (elim disjE exE conjE)
    assume "st3 = st" "\<not> ok"
    with d show ?thesis by simp
  next
    assume "st3 = ?st1" "\<not> ok"
    with d k e0 es1 c1 show ?thesis by (simp add: put_length put_map_of)
  next
    fix b assume "st3 = setTmp (put t b fs) ?st1" "ok" "url \<noteq> []"
    with d k e0 e2 c2 t2 show ?thesis by (simp add: put_length put_map_of put_keys)
  qed
qed

lemma entries_logln [simp]: "entries (logln l st) = entries st"
  by (simp add: entries_def)

lemma entries_writeConfig [simp]: "entries (writeConfig e c st) = entries st"
  by (simp add: entries_def)

lemma checkLimit_flipped:
  assumes "checkLimit e st h n = (st', b, res)" and "cache st \<noteq> None"
  shows "flipped e st st' res"
proof -
  from assms(2) obtain d where d: "cache st = Some d" by auto
  then have e0: "entries st = d" by (simp add: entries_def)
  from checkLimit_facts[OF assms(1)] have c: "cache st' = cache st" by simp
  with e0 d have e1: "entries st' = d" by (simp add: entries_def)
  from assms(1) d e0 e1 show ?thesis
    unfolding flipped_def
    by (auto simp: checkLimit_def serveLink_def writeConfig_def entries_def
             split: if_splits option.splits)
qed

lemma tmpFiles_logln [simp]: "tmpFiles (logln l st) = tmpFiles st"
  by (simp add: tmpFiles_def)

lemma storeImage_cases:
  assumes "storeImage e st h t = (st', b, res)"
  shows "(res = Aborted \<and> b = [] \<and> lastIsError st' \<and> config st' = config st \<and>
          timestamp st' = timestamp st \<and> httpCalls st' = httpCalls st) \<or>
         (\<exists>d fs dat. cache st = Some d \<and>
            map_of d (CacheTmpFolder (config st)) = Some (Dir fs) \<and> map_of fs t = Some dat \<and>
            outName e \<noteq> CacheTmpFolder (config st) \<and>
            checkLimit e (stored e st t d fs dat) h (outName e) = (st', b, res))"
proof -
  let ?st1 = "logln (Info ''Compressing image'') st"
  let ?rd = "if readTmpFails e then None
             else (case tmpFiles st of None \<Rightarrow> None | Some fs \<Rightarrow> map_of fs t)"
  show ?thesis
  proof (cases ?rd)
    case None
    then have "storeImage e st h t = (logln (Error ''read file'') ?st1, [], Aborted)"
      by (auto simp: storeImage_def Let_def split: if_splits option.splits)
    with assms show ?thesis by auto
  next
    case (Some dat)
    then obtain fs where fs: "tmpFiles st = Some fs" "map_of fs t = Some dat" "\<not> readTmpFails e"
      by (auto split: if_splits option.splits)
    then obtain d where d: "cache st = Some d" "map_of d (CacheTmpFolder (config st)) = Some (Dir fs)"
      by (auto simp: tmpFiles_Some)
    let ?x = "File (fst (compressImage e (ImageQuality (config st)) dat))"
    let ?st2 = "?st1\<lparr>cache := Some (put (outName e) ?x d)\<rparr>"
    let ?wr = "if writeFails e then None
               else (case map_of d (outName e) of
                       Some (Dir fs) \<Rightarrow> None
                     | _ \<Rightarrow> Some ?st2)"
    have unfold1: "storeImage e st h t =
        (case ?wr of
           None \<Rightarrow> (logln (Error ''write file'') ?st1, [], Aborted)
         | Some st2 \<Rightarrow>
             (case (if removeTmpFails e then None else tmpFiles st2) of
                None \<Rightarrow> (logln (Error ''remove'') st2, [], Aborted)
              | Some fs \<Rightarrow>
                  checkLimit e
                    (logln (Info ''Removed uncompressed image'') (setTmp (del t fs) st2))
                    h (outName e)))"
      using fs d by (simp add: storeImage_def Let_def outName_def
                       cong: option.case_cong node.case_cong if_cong)
    show ?thesis
    proof (cases "writeFails e \<or> (\<exists>y. map_of d (outName e) = Some (Dir y))")
      case True
      then have "?wr = None" by auto
      with unfold1 have "storeImage e st h t = (logln (Error ''write file'') ?st1, [], Aborted)"
        by (simp only: option.case)
      with assms show ?thesis by auto
    next
      case False
      then have w: "?wr = Some ?st2" by (auto split: option.splits node.splits)
      from False have nd: "\<not> (\<exists>y. map_of d (outName e) = Some (Dir y))" by simp
      with d have ne: "outName e \<noteq> CacheTmpFolder (config st)" by auto
      from d ne have t2: "tmpFiles ?st2 = Some fs"
        by (simp add: tmpFiles_Some put_map_of)
      show ?thesis
      proof (cases "removeTmpFails e")
        case True
        with unfold1 w have "storeImage e st h t = (logln (Error ''remove'') ?st2, [], Aborted)"
          by (simp only: option.case if_True)
        with assms show ?thesis by auto
      next
        case False
        with unfold1 w t2 have
          "storeImage e st h t = checkLimit e (stored e st t d fs dat) h (outName e)"
          by (simp only: option.case if_False stored_def)
        with assms d fs ne show ?thesis by auto
      qed
    qed
  qed
qed

lemma stored_fields [simp]:
  "config (stored e st t d fs dat) = config st"
  "timestamp (stored e st t d fs dat) = timestamp st"
  "httpCalls (stored e st t d fs dat) = httpCalls st"
  "configFile (stored e st t d fs dat) = configFile st"
  by (simp_all add: stored_def)

lemma stored_cache:
  "cache (stored e st t d fs dat) =
     Some (put (CacheTmpFolder (config st)) (Dir (del t fs))
            (put (outName e) (File (fst (compressImage e (ImageQuality (config st)) dat))) d))"
  by (simp add: stored_def setTmp_def logln_def)

lemma stored_entries:
  assumes "map_of d (CacheTmpFolder (config st)) = Some (Dir fs)"
  shows "length (entries (stored e st t d fs dat)) =
           (if outName e \<in> fst ` set d then length d else Suc (length d))"
    and "map_of (entries (stored e st t d fs dat)) =
           (map_of d)(outName e \<mapsto> File (fst (compressImage e (ImageQuality (config st)) dat)),
                      CacheTmpFolder (config st) \<mapsto> Dir (del t fs))"
proof -
  from assms have "CacheTmpFolder (config st) \<in> fst ` set d"
    by (metis map_of_None_keys option.distinct(1))
  then show "length (entries (stored e st t d fs dat)) =
           (if outName e \<in> fst ` set d then length d else Suc (length d))"
    by (simp add: entries_def stored_cache put_length put_keys)
  show "map_of (entries (stored e st t d fs dat)) =
           (map_of d)(outName e \<mapsto> File (fst (compressImage e (ImageQuality (config st)) dat)),
                      CacheTmpFolder (config st) \<mapsto> Dir (del t fs))"
    by (simp add: entries_def stored_cache put_map_of)
qed

lemma fetchImage_cases:
  assumes "fetchImage e st h url ext = (st', b, res)"
  shows "(res = Exit \<and> b = [] \<and> ensureFolders e (logln (Info ''Retrieving from URL'') st) = None \<and>
          st' = logln (Error ''mkdir'') (logln (Info ''Retrieving from URL'') st)) \<or>
         (\<exists>st2 st3. ensureFolders e (logln (Info ''Retrieving from URL'') st) = Some st2 \<and>
            ((downloadFile e (logln (Info ''Downloading image'') st2) (tmpName e ext) url = (st3, False) \<and>
              res = Aborted \<and> b = [] \<and> st' = logln (Error ''download'') st3) \<or>
             (downloadFile e (logln (Info ''Downloading image'') st2) (tmpName e ext) url = (st3, True) \<and>
              storeImage e st3 h (tmpName e ext) = (st', b, res))))"
proof (cases "ensureFolders e (logln (Info ''Retrieving from URL'') st)")
  case None
  with assms show ?thesis by (simp add: fetchImage_def Let_def)
next
  case (Some st2)
  obtain st3 ok where dl:
    "downloadFile e (logln (Info ''Downloading image'') st2) (tmpName e ext) url = (st3, ok)"
    by (cases "downloadFile e (logln (Info ''Downloading image'') st2) (tmpName e ext) url") auto
  with assms Some show ?thesis
    by (cases ok) (auto simp: fetchImage_def Let_def tmpName_def)
qed

lemma flipped_same_config:
  "config a = config c \<Longrightarrow> flipped e a st' res = flipped e c st' res"
  by (simp add: flipped_def)

lemma flipped_unchanged:
  "config st' = config st \<Longrightarrow> res \<noteq> Done \<Longrightarrow> flipped e st st' res"
  by (simp add: flipped_def)

lemma storeImage_facts:
  assumes "storeImage e st h t = (st', b, res)"
  shows "timestamp st' = timestamp st \<and> httpCalls st' = httpCalls st \<and>
         (res = Done \<or> res = Aborted) \<and>
         (res = Aborted \<longrightarrow> b = [] \<and> lastIsError st') \<and>
         (res = Done \<longrightarrow> b \<noteq> []) \<and> flipped e st st' res"
proof -
  from storeImage_cases[OF assms] show ?thesis
  proof (elim disjE exE conjE)
    assume "res = Aborted" "b = []" "lastIsError st'" "config st' = config st"
      "timestamp st' = timestamp st" "httpCalls st' = httpCalls st"
    then show ?thesis by (simp add: flipped_unchanged)
  next
    fix d fs dat
    assume c: "checkLimit e (stored e st t d fs dat) h (outName e) = (st', b, res)"
    have "cache (stored e st t d fs dat) \<noteq> None" by (simp add: stored_cache)
    from checkLimit_flipped[OF c this] have "flipped e st st' res"
      using flipped_same_config[of "stored e st t d fs dat" st e st' res] by simp
    with checkLimit_facts[OF c] show ?thesis by simp
  qed
qed

lemma storeImage_Done:
  assumes "storeImage e st h t = (st', b, Done)"
  shows "\<exists>fs dat. map_of (entries st) (CacheTmpFolder (config st)) = Some (Dir fs) \<and>
           map_of fs t = Some dat \<and> outName e \<noteq> CacheTmpFolder (config st) \<and>
           length (entries st') =
             (if outName e \<in> fst ` set (entries st) then length (entries st)
              else Suc (length (entries st))) \<and>
           map_of (entries st') =
             (map_of (entries st))
               (outName e \<mapsto> File (fst (compressImage e (ImageQuality (config st)) dat)),
                CacheTmpFolder (config st) \<mapsto> Dir (del t fs)) \<and>
           b = ''http://'' @ h @ ''/'' @
                 replaceAll [CHR 0x5C] ''/'' (CacheFolder (config st) @ [PathSeparator] @ outName e)"
proof -
  from storeImage_cases[OF assms] obtain d fs dat where
    d: "cache st = Some d" "map_of d (CacheTmpFolder (config st)) = Some (Dir fs)"
       "map_of fs t = Some dat" "outName e \<noteq> CacheTmpFolder (config st)"
    and c: "checkLimit e (stored e st t d fs dat) h (outName e) = (st', b, Done)"
    by auto
  from d have e0: "entries st = d" by (simp add: entries_def)
  from checkLimit_facts[OF c] have "cache st' = cache (stored e st t d fs dat)" by simp
  then have e1: "entries st' = entries (stored e st t d fs dat)" by (simp add: entries_def)
  from c have b: "b = ''http://'' @ h @ ''/'' @
                 replaceAll [CHR 0x5C] ''/'' (CacheFolder (config st) @ [PathSeparator] @ outName e)"
    by (auto simp: checkLimit_def serveLink_def split: if_splits option.splits)
  from stored_entries[OF d(2), of e t dat] e0 e1 d b show ?thesis by auto
qed

lemma fetchImage_facts:
  assumes "fetchImage e st h url ext = (st', b, res)"
  shows "timestamp st' = timestamp st \<and> res \<noteq> Panic \<and>
         (res \<noteq> Done \<longrightarrow> b = [] \<and> lastIsError st') \<and>
         (res = Done \<longrightarrow> b \<noteq> []) \<and> flipped e st st' res \<and>
         (res = Exit \<longrightarrow> (cache st = None \<and> mkdirCacheFails e) \<or>
             (lookupCache st (CacheTmpFolder (config st)) = None \<and> mkdirTmpFails e))"
proof -
  let ?s1 = "logln (Info ''Retrieving from URL'') st"
  from fetchImage_cases[OF assms] show ?thesis
  proof (elim disjE exE conjE)
    assume x: "res = Exit" "b = []" "ensureFolders e ?s1 = None" "st' = logln (Error ''mkdir'') ?s1"
    from ensureFolders_None[OF x(3)] x show ?thesis
      by (simp add: flipped_unchanged)
  next
    fix st2 st3
    assume en: "ensureFolders e ?s1 = Some st2"
      and dl: "downloadFile e (logln (Info ''Downloading image'') st2) (tmpName e ext) url = (st3, False)"
      and r: "res = Aborted" "b = []" "st' = logln (Error ''download'') st3"
    from ensureFolders_facts[OF en] downloadFile_facts[OF dl] r show ?thesis
      by (simp add: flipped_unchanged)
  next
    fix st2 st3
    assume en: "ensureFolders e ?s1 = Some st2"
      and dl: "downloadFile e (logln (Info ''Downloading image'') st2) (tmpName e ext) url = (st3, True)"
      and s: "storeImage e st3 h (tmpName e ext) = (st', b, res)"
    from ensureFolders_facts[OF en] downloadFile_facts[OF dl]
    have c: "config st3 = config st" "timestamp st3 = timestamp st" by simp_all
    from storeImage_facts[OF s] c flipped_same_config[OF c(1), of e st' res]
    show ?thesis by auto
  qed
qed

lemma fetchImage_Done:
  assumes "fetchImage e st h url ext = (st', b, Done)"
  shows "outName e \<noteq> CacheTmpFolder (config st) \<and>
         length (entries st') =
           length (entries st)
           + (if map_of (entries st) (CacheTmpFolder (config st)) = None then 1 else 0)
           + (if map_of (entries st) (outName e) = None then 1 else 0) \<and>
         (\<exists>x. map_of (entries st') (outName e) = Some (File x)) \<and>
         (\<exists>fs. map_of (entries st') (CacheTmpFolder (config st)) = Some (Dir fs)) \<and>
         (\<forall>n. n \<noteq> outName e \<and> n \<noteq> CacheTmpFolder (config st) \<longrightarrow>
              map_of (entries st') n = map_of (entries st) n) \<and>
         b = ''http://'' @ h @ ''/'' @
               replaceAll [CHR 0x5C] ''/'' (CacheFolder (config st) @ [PathSeparator] @ outName e)"
proof -
  let ?s1 = "logln (Info ''Retrieving from URL'') st"
  let ?T = "CacheTmpFolder (config st)"
  from fetchImage_cases[OF assms] obtain st2 st3 where
    en: "ensureFolders e ?s1 = Some st2"
    and dl: "downloadFile e (logln (Info ''Downloading image'') st2) (tmpName e ext) url = (st3, True)"
    and s: "storeImage e st3 h (tmpName e ext) = (st', b, Done)"
    by auto
  from ensureFolders_facts[OF en] have
    c2: "config st2 = config st"
    and m2: "map_of (entries st2) =
           (if map_of (entries st) ?T = None then (map_of (entries st))(?T \<mapsto> Dir [])
            else map_of (entries st))"
    and l2: "length (entries st2) =
           (if map_of (entries st) ?T = None then Suc (length (entries st)) else length (entries st))"
    by simp_all
  from downloadFile_facts[OF dl] c2 have
    c3: "config st3 = config st"
    and l3: "length (entries st3) = length (entries st2)"
    and m3: "\<And>n. n \<noteq> ?T \<Longrightarrow> map_of (entries st3) n = map_of (entries st2) n"
    by simp_all
  from storeImage_Done[OF s] c3 obtain fs dat where
    ne: "outName e \<noteq> ?T"
    and l4: "length (entries st') =
             (if outName e \<in> fst ` set (entries st3) then length (entries st3)
              else Suc (length (entries st3)))"
    and m4: "map_of (entries st') =
             (map_of (entries st3))
               (outName e \<mapsto> File (fst (compressImage e (ImageQuality (config st)) dat)),
                ?T \<mapsto> Dir (del (tmpName e ext) fs))"
    and b: "b = ''http://'' @ h @ ''/'' @
                 replaceAll [CHR 0x5C] ''/'' (CacheFolder (config st) @ [PathSeparator] @ outName e)"
    by auto
  from ne m3 m2 have o: "map_of (entries st3) (outName e) = map_of (entries st) (outName e)"
    by simp
  have k: "outName e \<in> fst ` set (entries st3) \<longleftrightarrow> map_of (entries st) (outName e) \<noteq> None"
    using o map_of_None_keys[of "entries st3" "outName e"] by simp
  from l4 k l3 l2 have len: "length (entries st') =
           length (entries st)
           + (if map_of (entries st) ?T = None then 1 else 0)
           + (if map_of (entries st) (outName e) = None then 1 else 0)"
    by simp
  from m4 ne have x: "\<exists>x. map_of (entries st') (outName e) = Some (File x)" by simp
  from m4 have t: "\<exists>fs. map_of (entries st') ?T = Some (Dir fs)" by simp
  have oth: "\<forall>n. n \<noteq> outName e \<and> n \<noteq> ?T \<longrightarrow> map_of (entries st') n = map_of (entries st) n"
    using m4 m3 m2 by simp
  from ne len x t oth b show ?thesis by blast
qed

lemma downloadFile_tmp_file:
  assumes "downloadFile e st t url = (st3, ok)"
  shows "map_of (entries st3) (CacheTmpFolder (config st)) = Some (File x) \<longleftrightarrow>
         map_of (entries st) (CacheTmpFolder (config st)) = Some (File x)"
proof (cases "tmpFiles st")
  case None
  with assms show ?thesis by (auto simp: downloadFile_def)
next
  case (Some fs)
  then obtain d where d: "cache st = Some d" "map_of d (CacheTmpFolder (config st)) = Some (Dir fs)"
    by (auto simp: tmpFiles_Some)
  from assms Some d show ?thesis
    by (auto simp: downloadFile_def Let_def entries_def setTmp_def put_map_of
             split: if_splits option.splits)
qed

lemma started_fields [simp]:
  "config (started e st) = config st" "timestamp (started e st) = fetchUnix e"
  "cache (started e st) = cache st" "httpCalls (started e st) = httpCalls st"
  "configFile (started e st) = configFile st"
  by (simp_all add: started_def)

lemma asked_fields [simp]:
  "config (asked e st) = config st" "timestamp (asked e st) = fetchUnix e"
  "cache (asked e st) = cache st" "httpCalls (asked e st) = httpCalls st @ [chosen e st]"
  "configFile (asked e st) = configFile st"
  by (simp_all add: asked_def)

lemma entries_asked [simp]: "entries (asked e st) = entries st"
  by (simp add: entries_def)

lemma lookupCache_asked [simp]: "lookupCache (asked e st) n = lookupCache st n"
  by (simp add: lookupCache_def)

lemma retrieveRemote_cases:
  assumes "retrieveRemote e st h = (st', b, res)"
  shows "(Remotes (config st) = [] \<and> res = Panic \<and> b = [] \<and> st' = started e st) \<or>
         (Remotes (config st) \<noteq> [] \<and> res = Aborted \<and> b = [] \<and>
            (\<exists>m. st' = logln (Error m) (asked e st)) \<and>
            (httpRequest (httpGet e) (chosen e st) = None \<or>
             (\<exists>r. httpRequest (httpGet e) (chosen e st) = Some r \<and>
                  ((statusCode r \<noteq> 200 \<and> statusCode r \<noteq> 302 \<and> statusCode r \<noteq> 301) \<or>
                   (getExtension (contentType r) = [] \<and> bodyRead r = None))))) \<or>
         (Remotes (config st) \<noteq> [] \<and>
            (\<exists>r. httpRequest (httpGet e) (chosen e st) = Some r \<and>
                 (statusCode r = 200 \<or> statusCode r = 302 \<or> statusCode r = 301) \<and>
                 ((getExtension (contentType r) \<noteq> [] \<and>
                   fetchImage e (asked e st) h (chosen e st) (getExtension (contentType r))
                     = (st', b, res)) \<or>
                  (getExtension (contentType r) = [] \<and>
                   (\<exists>bd. bodyRead r = Some bd \<and>
                      fetchImage e (asked e st) h (getImgURL bd)
                        (getImgExtension (getImgURL bd)) = (st', b, res))))))"
proof (cases "Remotes (config st) = []")
  case True
  then have "retrieveRemote e st h = (started e st, [], Panic)"
    by (simp add: retrieveRemote_def Let_def started_def)
  with assms True show ?thesis by simp
next
  case False
  have unf: "retrieveRemote e st h =
     (case httpRequest (httpGet e) (chosen e st) of
        None \<Rightarrow> (logln (Error ''get'') (asked e st), [], Aborted)
      | Some response \<Rightarrow>
          if statusCode response \<noteq> 200 \<and> statusCode response \<noteq> 302
             \<and> statusCode response \<noteq> 301
          then (logln (Error ''Invalid response status code'') (asked e st), [], Aborted)
          else if getExtension (contentType response) \<noteq> []
          then fetchImage e (asked e st) h (chosen e st) (getExtension (contentType response))
          else (case bodyRead response of
                  None \<Rightarrow> (logln (Error ''read body'') (asked e st), [], Aborted)
                | Some bd \<Rightarrow>
                    fetchImage e (asked e st) h (getImgURL bd)
                      (getImgExtension (getImgURL bd))))"
    using False
    by (simp add: retrieveRemote_def Let_def started_def asked_def chosen_def logln_def
             cong: option.case_cong if_cong)
  show ?thesis
  proof (cases "httpRequest (httpGet e) (chosen e st)")
    case None
    with unf assms False show ?thesis by auto
  next
    case (Some r)
    show ?thesis
    proof (cases "statusCode r \<noteq> 200 \<and> statusCode r \<noteq> 302 \<and> statusCode r \<noteq> 301")
      case True
      with unf assms False Some show ?thesis by auto
    next
      case ok: False
      show ?thesis
      proof (cases "getExtension (contentType r) \<noteq> []")
        case True
        with unf assms False Some ok show ?thesis by auto
      next
        case ne: False
        show ?thesis
        proof (cases "bodyRead r")
          case None
          with unf assms False Some ok ne show ?thesis by auto
        next
          case (Some bd)
          with unf assms False \<open>httpRequest (httpGet e) (chosen e st) = Some r\<close> ok ne
          show ?thesis by auto
        qed
      qed
    qed
  qed
qed

lemma retrieveRemote_facts:
  assumes "retrieveRemote e st h = (st', b, res)"
  shows "timestamp st' = fetchUnix e \<and>
         (res = Panic \<longleftrightarrow> Remotes (config st) = []) \<and>
         (res = Aborted \<or> res = Exit \<longrightarrow> b = [] \<and> lastIsError st') \<and>
         (res \<noteq> Done \<longrightarrow> b = []) \<and>
         (res = Done \<longrightarrow> b \<noteq> []) \<and> flipped e st st' res \<and>
         (res = Exit \<longrightarrow> (cache st = None \<and> mkdirCacheFails e) \<or>
             (lookupCache st (CacheTmpFolder (config st)) = None \<and> mkdirTmpFails e))"
proof -
  have fl: "\<And>s. flipped e (asked e st) s res = flipped e st s res"
    by (rule flipped_same_config) simp
  from retrieveRemote_cases[OF assms] show ?thesis
  proof (elim disjE exE conjE)
    assume "Remotes (config st) = []" "res = Panic" "b = []" "st' = started e st"
    then show ?thesis by (simp add: flipped_unchanged)
  next
    fix m
    assume "Remotes (config st) \<noteq> []" "res = Aborted" "b = []" "st' = logln (Error m) (asked e st)"
    then show ?thesis by (simp add: flipped_unchanged)
  next
    fix m r
    assume "Remotes (config st) \<noteq> []" "res = Aborted" "b = []" "st' = logln (Error m) (asked e st)"
    then show ?thesis by (simp add: flipped_unchanged)
  next
    fix m r
    assume "Remotes (config st) \<noteq> []" "res = Aborted" "b = []" "st' = logln (Error m) (asked e st)"
    then show ?thesis by (simp add: flipped_unchanged)
  next
    fix r
    assume ne: "Remotes (config st) \<noteq> []"
      and f: "fetchImage e (asked e st) h (chosen e st) (getExtension (contentType r)) = (st', b, res)"
    from fetchImage_facts[OF f] ne fl[of st'] show ?thesis by auto
  next
    fix r
    assume ne: "Remotes (config st) \<noteq> []"
      and f: "fetchImage e (asked e st) h (chosen e st) (getExtension (contentType r)) = (st', b, res)"
    from fetchImage_facts[OF f] ne fl[of st'] show ?thesis by auto
  next
    fix r
    assume ne: "Remotes (config st) \<noteq> []"
      and f: "fetchImage e (asked e st) h (chosen e st) (getExtension (contentType r)) = (st', b, res)"
    from fetchImage_facts[OF f] ne fl[of st'] show ?thesis by auto
  next
    fix r bd
    assume ne: "Remotes (config st) \<noteq> []"
      and f: "fetchImage e (asked e st) h (getImgURL bd) (getImgExtension (getImgURL bd)) = (st', b, res)"
    from fetchImage_facts[OF f] ne fl[of st'] show ?thesis by auto
  next
    fix r bd
    assume ne: "Remotes (config st) \<noteq> []"
      and f: "fetchImage e (asked e st) h (getImgURL bd) (getImgExtension (getImgURL bd)) = (st', b, res)"
    from fetchImage_facts[OF f] ne fl[of st'] show ?thesis by auto
  next
    fix r bd
    assume ne: "Remotes (config st) \<noteq> []"
      and f: "fetchImage e (asked e st) h (getImgURL bd) (getImgExtension (getImgURL bd)) = (st', b, res)"
    from fetchImage_facts[OF f] ne fl[of st'] show ?thesis by auto
  qed
qed

lemma handleRequest_other:
  "\<not> (Method r = ''GET'' \<and> Path r = ''/'') \<Longrightarrow> after (handleRequest e st r) = st"
  by (auto simp: handleRequest_def NotFound_def ServeFile_def split: option.splits node.splits)

















lemma handleRequest_config:
  "config (after (handleRequest e st r)) \<noteq> config st \<longrightarrow>
     config (after (handleRequest e st r)) = (config st)\<lparr>Mode := Local\<rparr> \<and>
     MaxCacheSize (config st) \<noteq> 0 \<and>
     MaxCacheSize (config st) \<le> int (length (entries (after (handleRequest e st r))))"
proof (cases "Method r = ''GET'' \<and> Path r = ''/''")
  case False
  from handleRequest_other[OF False, of e st] show ?thesis by simp
next
  case True
  obtain st1 served b where l: "localServe e st (Host r) = (st1, served, b)"
    by (cases "localServe e st (Host r)") auto
  from localServe_fields[OF l] have c: "config st1 = config st" by simp
  obtain st2 b2 res where rr: "retrieveRemote e st1 (Host r) = (st2, b2, res)"
    by (cases "retrieveRemote e st1 (Host r)") auto
  from retrieveRemote_facts[OF rr] have "flipped e st1 st2 res" by simp
  with c have f: "config st2 \<noteq> config st \<longrightarrow>
     config st2 = (config st)\<lparr>Mode := Local\<rparr> \<and> MaxCacheSize (config st) \<noteq> 0 \<and>
     MaxCacheSize (config st) \<le> int (length (entries st2))"
    by (auto simp: flipped_def)
  from True l rr c f show ?thesis
    by (simp add: handleRequest_root)
qed

lemma handleRequest_served_local:
  assumes "Method r = ''GET''" "Path r = ''/''" "fst (snd (localServe e st (Host r)))"
    "Mode (config st) = Local"
  shows "httpCalls (after (handleRequest e st r)) = httpCalls st \<and>
         \<not> background (handleRequest e st r)"
proof -
  obtain st1 served b where l: "localServe e st (Host r) = (st1, served, b)"
    by (cases "localServe e st (Host r)") auto
  from localServe_fields[OF l] assms l show ?thesis
    by (simp add: handleRequest_root)
qed

lemma reloadConfig_mode:
  "configFile st = Parsed c n \<Longrightarrow> Mode c = Local \<Longrightarrow>
     Mode (config (after (reloadConfig e st))) = Local"
  by (simp add: reloadConfig_def getConfig_def newConfig_def)

text \<open>
  Claim C2, as stated, fails in its last part: with a cap of one entry, a first \<open>GET /\<close>
  fetches an image whose download is empty and switches the mode to local; the second
  \<open>GET /\<close> finds no valid image in the cache and requests a remote again.
\<close>

theorem local_mode_still_fetches:
  "Mode (config (after (handleRequest emptyEnv cappedState getRoot))) = Local \<and>
   httpCalls (after (handleRequest emptyEnv
                (after (handleRequest emptyEnv cappedState getRoot)) getRoot))
     \<noteq> httpCalls (after (handleRequest emptyEnv cappedState getRoot))"
  by code_simp

lemma downloadFile_calls:
  "downloadFile e st t url = (st3, ok) \<Longrightarrow>
     httpCalls st3 = httpCalls st \<or> httpCalls st3 = httpCalls st @ [url]"
  by (auto simp: downloadFile_def Let_def split: option.splits if_splits)

lemma fetchImage_calls:
  assumes "fetchImage e st h url ext = (st', b, res)"
  shows "length (httpCalls st) \<le> length (httpCalls st')"
proof -
  let ?s1 = "logln (Info ''Retrieving from URL'') st"
  from fetchImage_cases[OF assms] show ?thesis
  proof (elim disjE exE conjE)
    assume "st' = logln (Error ''mkdir'') ?s1"
    then show ?thesis by simp
  next
    fix st2 st3
    assume en: "ensureFolders e ?s1 = Some st2"
      and dl: "downloadFile e (logln (Info ''Downloading image'') st2) (tmpName e ext) url = (st3, False)"
      and r: "st' = logln (Error ''download'') st3"
    from ensureFolders_facts[OF en] downloadFile_calls[OF dl] r show ?thesis by auto
  next
    fix st2 st3
    assume en: "ensureFolders e ?s1 = Some st2"
      and dl: "downloadFile e (logln (Info ''Downloading image'') st2) (tmpName e ext) url = (st3, True)"
      and s: "storeImage e st3 h (tmpName e ext) = (st', b, res)"
    from ensureFolders_facts[OF en] downloadFile_calls[OF dl] storeImage_facts[OF s]
    show ?thesis by auto
  qed
qed

lemma retrieveRemote_calls:
  assumes "retrieveRemote e st h = (st', b, res)" "Remotes (config st) \<noteq> []"
  shows "length (httpCalls st) < length (httpCalls st')"
  using retrieveRemote_cases[OF assms(1)] assms(2)
  by (auto dest: fetchImage_calls)

lemma handleRequest_unserved_calls:
  assumes "Method r = ''GET''" "Path r = ''/''" "\<not> fst (snd (localServe e st (Host r)))"
    "Remotes (config st) \<noteq> []"
  shows "httpCalls (after (handleRequest e st r)) \<noteq> httpCalls st"
proof -
  obtain st1 served b where l: "localServe e st (Host r) = (st1, served, b)"
    by (cases "localServe e st (Host r)") auto
  obtain st2 b2 res where rr: "retrieveRemote e st1 (Host r) = (st2, b2, res)"
    by (cases "retrieveRemote e st1 (Host r)") auto
  from localServe_fields[OF l] assms have c: "Remotes (config st1) \<noteq> []"
    "httpCalls st1 = httpCalls st" by simp_all
  from retrieveRemote_calls[OF rr c(1)] c(2) have "httpCalls st2 \<noteq> httpCalls st" by auto
  with assms l rr show ?thesis by (simp add: handleRequest_root)
qed

text \<open>
  Claim C2, amended. After a successful retrieval with a nonzero \<open>MaxCacheSize\<close>, if the
  number of entries of the cache folder (every entry, the temporary folder included) has
  reached \<open>MaxCacheSize\<close>, the mode is local and, unless writing the file fails, the
  changed configuration is in the configuration file. A retrieval and the request handler
  change the configuration in no other way: only the mode, only to local, only under this
  condition; so a local mode stays local, and reloading a file that says local gives local.
  Once the mode is local, a \<open>GET /\<close> whose local serve succeeds requests no remote and
  starts no background retrieval; one whose local serve fails still runs a retrieval.
\<close>

theorem mode_flips_only_to_local:
  assumes "retrieveRemote e st h = (st', b, res)"
  shows "(res = Done \<and> MaxCacheSize (config st) \<noteq> 0 \<and>
            MaxCacheSize (config st) \<le> int (length (entries st')) \<longrightarrow>
            Mode (config st') = Local \<and>
            (\<not> writeConfigFails e \<longrightarrow> configFile st' = Parsed (config st') False)) \<and>
         (config st' \<noteq> config st \<longrightarrow>
            config st' = (config st)\<lparr>Mode := Local\<rparr> \<and> res = Done \<and>
            MaxCacheSize (config st) \<noteq> 0 \<and>
            MaxCacheSize (config st) \<le> int (length (entries st'))) \<and>
         (config (after (handleRequest e st r)) \<noteq> config st \<longrightarrow>
            config (after (handleRequest e st r)) = (config st)\<lparr>Mode := Local\<rparr> \<and>
            MaxCacheSize (config st) \<noteq> 0 \<and>
            MaxCacheSize (config st) \<le> int (length (entries (after (handleRequest e st r))))) \<and>
         (Mode (config st) = Local \<longrightarrow>
            Mode (config st') = Local \<and> Mode (config (after (handleRequest e st r))) = Local) \<and>
         (Mode (config st) = Local \<and> Method r = ''GET'' \<and> Path r = ''/'' \<and>
            fst (snd (localServe e st (Host r))) \<longrightarrow>
            httpCalls (after (handleRequest e st r)) = httpCalls st \<and>
            \<not> background (handleRequest e st r)) \<and>
         (Mode (config st) = Local \<and> Method r = ''GET'' \<and> Path r = ''/'' \<and>
            \<not> fst (snd (localServe e st (Host r))) \<and> Remotes (config st) \<noteq> [] \<longrightarrow>
            httpCalls (after (handleRequest e st r)) \<noteq> httpCalls st) \<and>
         (\<forall>c n. configFile st = Parsed c n \<and> Mode c = Local \<longrightarrow>
            Mode (config (after (reloadConfig e st))) = Local)"
proof -
  from retrieveRemote_facts[OF assms] have fl: "flipped e st st' res" by simp
  have 1: "res = Done \<and> MaxCacheSize (config st) \<noteq> 0 \<and>
            MaxCacheSize (config st) \<le> int (length (entries st')) \<longrightarrow>
            Mode (config st') = Local \<and>
            (\<not> writeConfigFails e \<longrightarrow> configFile st' = Parsed (config st') False)"
    using fl by (simp add: flipped_def)
  have 2: "config st' \<noteq> config st \<longrightarrow>
            config st' = (config st)\<lparr>Mode := Local\<rparr> \<and> res = Done \<and>
            MaxCacheSize (config st) \<noteq> 0 \<and>
            MaxCacheSize (config st) \<le> int (length (entries st'))"
    using fl by (auto simp: flipped_def)
  note 3 = handleRequest_config[of e st r]
  have 4: "Mode (config st) = Local \<longrightarrow>
            Mode (config st') = Local \<and> Mode (config (after (handleRequest e st r))) = Local"
  proof
    assume m: "Mode (config st) = Local"
    from 2 m have a: "Mode (config st') = Local" by (cases "config st' = config st") auto
    from 3 m have "Mode (config (after (handleRequest e st r))) = Local"
      by (cases "config (after (handleRequest e st r)) = config st") auto
    with a show "Mode (config st') = Local \<and> Mode (config (after (handleRequest e st r))) = Local"
      by simp
  qed
  have 5: "Mode (config st) = Local \<and> Method r = ''GET'' \<and> Path r = ''/'' \<and>
            fst (snd (localServe e st (Host r))) \<longrightarrow>
            httpCalls (after (handleRequest e st r)) = httpCalls st \<and>
            \<not> background (handleRequest e st r)"
    using handleRequest_served_local[of r e st] by blast
  have 6: "Mode (config st) = Local \<and> Method r = ''GET'' \<and> Path r = ''/'' \<and>
            \<not> fst (snd (localServe e st (Host r))) \<and> Remotes (config st) \<noteq> [] \<longrightarrow>
            httpCalls (after (handleRequest e st r)) \<noteq> httpCalls st"
    using handleRequest_unserved_calls[of r e st] by blast
  have 7: "\<forall>c n. configFile st = Parsed c n \<and> Mode c = Local \<longrightarrow>
            Mode (config (after (reloadConfig e st))) = Local"
    using reloadConfig_mode[of st _ _ e] by blast
  from 1 2 3 4 5 6 7 show ?thesis by blast
qed

theorem mode_flips_only_to_local_witness:
  "Mode (config (fst (retrieveRemote emptyEnv cappedState ''h''))) = Local \<and>
   configFile (fst (retrieveRemote emptyEnv cappedState ''h''))
     = Parsed (config (fst (retrieveRemote emptyEnv cappedState ''h''))) False"
proof -
  obtain st' b res where rr: "retrieveRemote emptyEnv cappedState ''h'' = (st', b, res)"
    by (cases "retrieveRemote emptyEnv cappedState ''h''") auto
  have a: "snd (snd (retrieveRemote emptyEnv cappedState ''h'')) = Done" by code_simp
  have c: "MaxCacheSize (config cappedState) = 1" "\<not> writeConfigFails emptyEnv"
    by (simp_all add: cappedState_def exampleConfig_def emptyEnv_def quietEnv_def exampleState_def)
  have l: "length (entries (fst (retrieveRemote emptyEnv cappedState ''h''))) = 2" by code_simp
  from mode_flips_only_to_local[OF rr, of getRoot] rr a c l show ?thesis by simp
qed

lemma retrieveRemote_Done:
  assumes "retrieveRemote e st h = (st', b, Done)"
  shows "outName e \<noteq> CacheTmpFolder (config st) \<and>
         length (entries st') =
           length (entries st)
           + (if map_of (entries st) (CacheTmpFolder (config st)) = None then 1 else 0)
           + (if map_of (entries st) (outName e) = None then 1 else 0) \<and>
         (\<exists>x. map_of (entries st') (outName e) = Some (File x)) \<and>
         (\<exists>fs. map_of (entries st') (CacheTmpFolder (config st)) = Some (Dir fs)) \<and>
         (\<forall>n. n \<noteq> outName e \<and> n \<noteq> CacheTmpFolder (config st) \<longrightarrow>
              map_of (entries st') n = map_of (entries st) n) \<and>
         b = ''http://'' @ h @ ''/'' @
               replaceAll [CHR 0x5C] ''/'' (CacheFolder (config st) @ [PathSeparator] @ outName e)"
proof -
  from retrieveRemote_cases[OF assms] obtain u x where
    "fetchImage e (asked e st) h u x = (st', b, Done)" by auto
  from fetchImage_Done[OF this] show ?thesis by simp
qed

text \<open>
  Claim C8, as stated, fails: the first successful retrieval into an empty cache folder
  also creates the temporary folder inside it, so the number of entries goes from 0 to 2.
\<close>

theorem first_fetch_adds_two_entries:
  "snd (snd (retrieveRemote quietEnv emptyCacheState ''h'')) = Done \<and>
   length (ReadDir (entries emptyCacheState)) = 0 \<and>
   length (ReadDir (entries (fst (retrieveRemote quietEnv emptyCacheState ''h'')))) = 2"
  by code_simp

text \<open>
  Claim C8, amended. A successful retrieval leaves in the cache folder the entries it
  found there (that is, after the invalid entries which the same request removed), plus
  the new image file unless a file of that name was already there (then it is replaced),
  plus the temporary folder if that had to be created. The new entry is a regular file;
  no entry other than the new file and the temporary folder is added, removed or changed.
\<close>

theorem fetch_adds_one_file:
  assumes "retrieveRemote e st h = (st', b, Done)"
  shows "length (ReadDir (entries st')) =
           length (ReadDir (entries st))
           + (if lookupCache st (outName e) = None then 1 else 0)
           + (if lookupCache st (CacheTmpFolder (config st)) = None then 1 else 0) \<and>
         (\<exists>x. lookupCache st' (outName e) = Some (File x)) \<and>
         outName e \<noteq> CacheTmpFolder (config st) \<and>
         (\<forall>n. n \<noteq> outName e \<and> n \<noteq> CacheTmpFolder (config st) \<longrightarrow>
              lookupCache st' n = lookupCache st n)"
  using retrieveRemote_Done[OF assms] by (simp add: lookupCache_entries)

theorem fetch_adds_one_file_witness:
  "length (ReadDir (entries (fst (retrieveRemote quietEnv exampleState ''h'')))) =
     length (ReadDir (entries exampleState)) + 1 \<and>
   lookupCache (fst (retrieveRemote quietEnv exampleState ''h'')) ''1.jpg''
     = lookupCache exampleState ''1.jpg''"
proof -
  obtain st' b res where rr: "retrieveRemote quietEnv exampleState ''h'' = (st', b, res)"
    by (cases "retrieveRemote quietEnv exampleState ''h''") auto
  have "snd (snd (retrieveRemote quietEnv exampleState ''h'')) = Done" by code_simp
  with rr have d: "retrieveRemote quietEnv exampleState ''h'' = (st', b, Done)" by simp
  have o: "outName quietEnv = ''6.jpg''" by code_simp
  have l: "lookupCache exampleState ''6.jpg'' = None"
    "lookupCache exampleState (CacheTmpFolder (config exampleState)) \<noteq> None"
    "CacheTmpFolder (config exampleState) = ''tmp''"
    by (simp_all add: lookupCache_def exampleState_def exampleConfig_def)
  from fetch_adds_one_file[OF d] o l rr show ?thesis by auto
qed

end
